theory Spec2Isabelle
  imports Main
begin

section \<open>Python values and exceptions\<close>

text \<open>
  The extraction pipeline of \<^verbatim>\<open>app.py\<close> works on the values that \<^verbatim>\<open>json.loads\<close>
  returns and on the lists of cell texts read from a Word table. Both are Python objects
  of the same kinds, so one datatype represents them. A dictionary is an association list
  in insertion order. Strings are byte strings (the UTF-8 encoding of the Python text).

  Floating point is not modelled: a Python float is a value of the opaque type
  \<open>pyfloat\<close>, and the three functions that look inside a float or that print a value
  other than a string or an integer are left unspecified. Nothing is assumed about them.
\<close>

typedecl pyfloat

datatype pyval =
    PNone
  | PBool bool
  | PInt int
  | PFloat pyfloat
  | PStr string
  | PList "pyval list"
  | PDict "(string \<times> pyval) list"

datatype exn =
    JSONDecodeError
  | ValueError
  | TypeError
  | AttributeError
  | IndexError
  | KeyError
  | RecursionError
  | OtherException string

definition float_of_literal :: "string \<Rightarrow> pyfloat" where
  \<comment> \<open>Python's \<^verbatim>\<open>float(s)\<close>; unspecified.\<close>
  "float_of_literal = (SOME f. True)"

definition float_nonzero :: "pyfloat \<Rightarrow> bool" where
  \<comment> \<open>Python's \<^verbatim>\<open>bool(x)\<close> for a float \<^verbatim>\<open>x\<close>; unspecified.\<close>
  "float_nonzero = (SOME f. True)"

definition repr_other :: "pyval \<Rightarrow> string" where
  \<comment> \<open>Python's \<^verbatim>\<open>str(v)\<close> for a float, a list or a dictionary; unspecified.\<close>
  "repr_other = (SOME f. True)"

text \<open>Truthiness, as \<^verbatim>\<open>if v:\<close> tests it.\<close>

fun truthy :: "pyval \<Rightarrow> bool" where
  "truthy PNone = False"
| "truthy (PBool b) = b"
| "truthy (PInt i) = (i \<noteq> 0)"
| "truthy (PFloat x) = float_nonzero x"
| "truthy (PStr s) = (s \<noteq> [])"
| "truthy (PList xs) = (xs \<noteq> [])"
| "truthy (PDict kvs) = (kvs \<noteq> [])"

text \<open>Decimal numerals, as an f-string prints an \<^verbatim>\<open>int\<close>.\<close>

definition digit_char :: "nat \<Rightarrow> char" where
  "digit_char d = ''0123456789'' ! d"

fun str_nat :: "nat \<Rightarrow> string" where
  "str_nat n = (if n < 10 then [digit_char n] else str_nat (n div 10) @ [digit_char (n mod 10)])"

declare str_nat.simps [simp del]

definition str_int :: "int \<Rightarrow> string" where
  "str_int i = (if i < 0 then CHR ''-'' # str_nat (nat (- i)) else str_nat (nat i))"

text \<open>What an f-string puts in place of \<^verbatim>\<open>{v}\<close>: a string as it is, any other value
  through \<^verbatim>\<open>str\<close>. (An integer that \<^verbatim>\<open>json.loads\<close> has returned is short enough for
  \<^verbatim>\<open>str\<close> not to raise.)\<close>

fun py_str :: "pyval \<Rightarrow> string" where
  "py_str (PStr s) = s"
| "py_str PNone = ''None''"
| "py_str (PBool b) = (if b then ''True'' else ''False'')"
| "py_str (PInt i) = str_int i"
| "py_str v = repr_other v"

text \<open>\<^verbatim>\<open>d.get(k, default)\<close>. On a value that is not a dictionary the attribute
  lookup raises.\<close>

fun py_get :: "pyval \<Rightarrow> string \<Rightarrow> pyval \<Rightarrow> exn + pyval" where
  "py_get (PDict kvs) k d = Inr (case map_of kvs k of None \<Rightarrow> d | Some v \<Rightarrow> v)"
| "py_get v k d = Inl AttributeError"

text \<open>\<^verbatim>\<open>s.find(c)\<close> and \<^verbatim>\<open>s.rfind(c)\<close> for a one-character needle: the lowest and
  the highest index of \<open>c\<close>, or \<open>-1\<close>.\<close>

definition py_find :: "string \<Rightarrow> char \<Rightarrow> int" where
  "py_find s c = (if c \<in> set s then int (length (takeWhile (\<lambda>x. x \<noteq> c) s)) else - 1)"

definition py_rfind :: "string \<Rightarrow> char \<Rightarrow> int" where
  "py_rfind s c =
     (if c \<in> set s then int (length s) - 1 - int (length (takeWhile (\<lambda>x. x \<noteq> c) (rev s)))
      else - 1)"

text \<open>\<^verbatim>\<open>s[i:j]\<close>, with Python's treatment of negative and out-of-range bounds.\<close>

definition clamp_index :: "int \<Rightarrow> int \<Rightarrow> nat" where
  "clamp_index n i = nat (if i < 0 then max (i + n) 0 else min i n)"

definition py_slice :: "string \<Rightarrow> int \<Rightarrow> int \<Rightarrow> string" where
  "py_slice s i j =
     (let n = int (length s); a = clamp_index n i; b = clamp_index n j
      in take (b - a) (drop a s))"

section \<open>The model call and the response parser\<close>

text \<open>
  A table of the result is the dictionary \<^verbatim>\<open>{'title': ..., 'data': ...}\<close>.
  The user interface is a log of what the code reports: each call of the model
  (\<^verbatim>\<open>model.generate_content\<close>), and each message shown with \<^verbatim>\<open>st.error\<close> or
  \<^verbatim>\<open>st.warning\<close>, identified by the place that shows it and by the values printed in it.
  Progress indicators (\<^verbatim>\<open>st.status\<close>) are left out.
\<close>

record table_info =
  title :: string
  data :: pyval

datatype event =
    ModelCall
  | ApiError exn                \<comment> \<open>\<^verbatim>\<open>st.error\<close> in \<^verbatim>\<open>get_gemini_response\<close>\<close>
  | PageWarning nat             \<comment> \<open>\<^verbatim>\<open>st.warning\<close>: could not parse data from page \<open>n\<close>\<close>
  | ImageWarning nat exn        \<comment> \<open>\<^verbatim>\<open>st.warning\<close>: could not process embedded image \<open>n\<close>\<close>
  | DecodeError                 \<comment> \<open>\<^verbatim>\<open>st.error\<close>: failed to decode JSON from API\<close>

text \<open>The remote model is outside the program: a call either returns the reply text or
  raises. \<^verbatim>\<open>get_gemini_response\<close> catches every exception, reports it and returns
  \<^verbatim>\<open>None\<close>.\<close>

type_synonym reply = "exn + string"

definition get_gemini_response :: "reply \<Rightarrow> string option \<times> event list" where
  "get_gemini_response r =
     (case r of
        Inr t \<Rightarrow> (Some t, [ModelCall])
      | Inl e \<Rightarrow> (None, [ModelCall, ApiError e]))"

text \<open>
  Lines 128 to 135 of \<^verbatim>\<open>extract_data_from_pdf\<close> (and the same lines of
  \<^verbatim>\<open>extract_data_from_docx\<close>): cut the reply from the first \<open>{\<close> to the last \<open>}\<close>,
  decode it, read the two fields. \<open>None\<close> is the path on which the \<^verbatim>\<open>if\<close> is not
  taken and nothing is assigned. The decoder \<^verbatim>\<open>json.loads\<close> is a parameter.
\<close>

type_synonym decoder = "string \<Rightarrow> exn + pyval"

definition json_substring :: "string \<Rightarrow> string option" where
  "json_substring response_text =
     (let start_index = py_find response_text CHR ''{'';
          end_index = py_rfind response_text CHR ''}''
      in if start_index \<noteq> - 1 \<and> end_index \<noteq> - 1
         then Some (py_slice response_text start_index (end_index + 1))
         else None)"

definition parse_response :: "decoder \<Rightarrow> string \<Rightarrow> exn + (pyval \<times> pyval) option" where
  "parse_response loads response_text =
     (case json_substring response_text of
        None \<Rightarrow> Inr None
      | Some json_string \<Rightarrow>
          (case loads json_string of
             Inl e \<Rightarrow> Inl e
           | Inr d \<Rightarrow>
               (case py_get d ''text'' (PStr []) of
                  Inl e \<Rightarrow> Inl e
                | Inr page_text \<Rightarrow>
                    (case py_get d ''table'' (PList []) of
                       Inl e \<Rightarrow> Inl e
                     | Inr page_table \<Rightarrow> Inr (Some (page_text, page_table))))))"

section \<open>The PDF page extractor\<close>

text \<open>
  A PDF is the list of its pages; what the program sees of a page is what the model call
  on the page's bitmap does. The loop of \<^verbatim>\<open>extract_data_from_pdf\<close> keeps the aggregate
  text and the aggregate table list; the body catches \<^verbatim>\<open>json.JSONDecodeError\<close> and no
  other exception, so any other exception leaves the function. A function that an
  exception leaves returns the exception together with what had been reported until then.
\<close>

type_synonym abort = "exn \<times> event list"

abbreviation NL :: char where
  "NL \<equiv> CHR 0x0A"

record pdf_state =
  aggregated_text :: string
  aggregated_tables :: "table_info list"
  pdf_log :: "event list"

definition page_section :: "nat \<Rightarrow> pyval \<Rightarrow> string" where
  \<comment> \<open>\<^verbatim>\<open>f"\n\n--- Page {page_num + 1} ---\n{page_text}"\<close>\<close>
  "page_section page_num page_text =
     [NL, NL] @ ''--- Page '' @ str_nat (page_num + 1) @ '' ---'' @ [NL] @ py_str page_text"

definition page_table_entry :: "nat \<Rightarrow> pyval \<Rightarrow> table_info" where
  "page_table_entry page_num page_table =
     \<lparr>title = ''Table from Page '' @ str_nat (page_num + 1), data = page_table\<rparr>"

definition pdf_add :: "nat \<Rightarrow> pyval \<times> pyval \<Rightarrow> pdf_state \<Rightarrow> pdf_state" where
  \<comment> \<open>lines 137 to 140\<close>
  "pdf_add page_num p st =
     (let st1 = (if truthy (fst p)
                 then st\<lparr>aggregated_text := aggregated_text st @ page_section page_num (fst p)\<rparr>
                 else st)
      in if truthy (snd p)
         then st1\<lparr>aggregated_tables :=
                    aggregated_tables st1 @ [page_table_entry page_num (snd p)]\<rparr>
         else st1)"

definition pdf_page :: "decoder \<Rightarrow> pdf_state \<Rightarrow> nat \<times> reply \<Rightarrow> abort + pdf_state" where
  "pdf_page loads st u =
     (let page_num = fst u;
          (response_text, ev) = get_gemini_response (snd u);
          st1 = st\<lparr>pdf_log := pdf_log st @ ev\<rparr>
      in case response_text of
           None \<Rightarrow> Inr st1
         | Some t \<Rightarrow>
             if t = [] then Inr st1
             else (case parse_response loads t of
                     Inl JSONDecodeError \<Rightarrow>
                       Inr (st1\<lparr>pdf_log := pdf_log st1 @ [PageWarning (page_num + 1)]\<rparr>)
                   | Inl e \<Rightarrow> Inl (e, pdf_log st1)
                   | Inr None \<Rightarrow> Inr st1
                   | Inr (Some p) \<Rightarrow> Inr (pdf_add page_num p st1)))"

fun pdf_loop :: "decoder \<Rightarrow> pdf_state \<Rightarrow> (nat \<times> reply) list \<Rightarrow> abort + pdf_state" where
  "pdf_loop loads st [] = Inr st"
| "pdf_loop loads st (u # us) =
     (case pdf_page loads st u of
        Inl a \<Rightarrow> Inl a
      | Inr st' \<Rightarrow> pdf_loop loads st' us)"

definition pdf_init :: pdf_state where
  "pdf_init = \<lparr>aggregated_text = [], aggregated_tables = [], pdf_log = []\<rparr>"

definition extract_data_from_pdf :: "decoder \<Rightarrow> reply list \<Rightarrow> abort + pdf_state" where
  "extract_data_from_pdf loads pages = pdf_loop loads pdf_init (enumerate 0 pages)"

section \<open>The DOCX extractor\<close>

text \<open>
  A Word document is its paragraphs, its tables (rows of cell texts) and its
  relationships. Of a part the program sees whether \<^verbatim>\<open>Image.open\<close> raises on its
  bytes, and if not, what the model call on the image does. A relationship of the package
  is internal, with a target reference (the part's name relative to the document, such as
  \<^verbatim>\<open>media/image1.png\<close>) and the part it points to, or external (a linked picture, a
  hyperlink), with the URL as its target reference and no part: python-docx's
  \<^verbatim>\<open>target_part\<close> raises \<^verbatim>\<open>ValueError\<close> on an external relationship. The list of image
  parts is built at lines 73 to 77, outside any \<^verbatim>\<open>try\<close>; the body of the image loop is
  inside \<^verbatim>\<open>try ... except Exception\<close>.
\<close>

datatype image_part =
    Undecodable exn
  | Bitmap reply

datatype relationship =
    InternalRel string image_part
  | ExternalRel string

fun target_ref :: "relationship \<Rightarrow> string" where
  "target_ref (InternalRel ref part) = ref"
| "target_ref (ExternalRel url) = url"

fun target_part :: "relationship \<Rightarrow> exn + image_part" where
  "target_part (InternalRel ref part) = Inr part"
| "target_part (ExternalRel url) = Inl ValueError"

record docx =
  paragraphs :: "string list"
  doc_tables :: "string list list list"
  rels :: "relationship list"

record docx_state =
  full_text :: "string list"
  all_tables_data :: "table_info list"
  docx_log :: "event list"

fun contains :: "string \<Rightarrow> string \<Rightarrow> bool" where
  \<comment> \<open>\<^verbatim>\<open>sub in s\<close>\<close>
  "contains sub [] = (sub = [])"
| "contains sub (c # cs) = (take (length sub) (c # cs) = sub \<or> contains sub cs)"

fun join :: "string \<Rightarrow> string list \<Rightarrow> string" where
  \<comment> \<open>\<^verbatim>\<open>sep.join(xs)\<close>\<close>
  "join sep [] = []"
| "join sep [x] = x"
| "join sep (x # y # ys) = x @ sep @ join sep (y # ys)"

definition native_table_entry :: "nat \<times> string list list \<Rightarrow> table_info" where
  "native_table_entry it =
     \<lparr>title = ''Native Table '' @ str_nat (fst it + 1),
      data = PList (map (\<lambda>row. PList (map PStr row)) (snd it))\<rparr>"

fun target_parts :: "relationship list \<Rightarrow> exn + image_part list" where
  \<comment> \<open>\<^verbatim>\<open>[rel.target_part for rel in ... if "image" in rel.target_ref]\<close>\<close>
  "target_parts [] = Inr []"
| "target_parts (rel # rest) =
     (if contains ''image'' (target_ref rel)
      then (case target_part rel of
              Inl e \<Rightarrow> Inl e
            | Inr part \<Rightarrow>
                (case target_parts rest of
                   Inl e \<Rightarrow> Inl e
                 | Inr parts \<Rightarrow> Inr (part # parts)))
      else target_parts rest)"

definition image_parts :: "docx \<Rightarrow> exn + image_part list" where
  \<comment> \<open>lines 73 to 77\<close>
  "image_parts doc = target_parts (rels doc)"

definition image_section :: "nat \<Rightarrow> pyval \<Rightarrow> string" where
  \<comment> \<open>\<^verbatim>\<open>f"\n--- Text from Embedded Image {i + 1} ---\n{img_text}"\<close>\<close>
  "image_section i img_text =
     [NL] @ ''--- Text from Embedded Image '' @ str_nat (i + 1) @ '' ---'' @ [NL] @ py_str img_text"

definition image_table_entry :: "nat \<Rightarrow> pyval \<Rightarrow> table_info" where
  "image_table_entry i img_table =
     \<lparr>title = ''Table from Embedded Image '' @ str_nat (i + 1), data = img_table\<rparr>"

definition docx_add :: "nat \<Rightarrow> pyval \<times> pyval \<Rightarrow> docx_state \<Rightarrow> docx_state" where
  \<comment> \<open>lines 96 to 99\<close>
  "docx_add i p st =
     (let st1 = (if truthy (fst p)
                 then st\<lparr>full_text := full_text st @ [image_section i (fst p)]\<rparr>
                 else st)
      in if truthy (snd p)
         then st1\<lparr>all_tables_data := all_tables_data st1 @ [image_table_entry i (snd p)]\<rparr>
         else st1)"

definition docx_image :: "decoder \<Rightarrow> docx_state \<Rightarrow> nat \<times> image_part \<Rightarrow> docx_state" where
  "docx_image loads st u =
     (let i = fst u
      in case snd u of
           Undecodable e \<Rightarrow> st\<lparr>docx_log := docx_log st @ [ImageWarning (i + 1) e]\<rparr>
         | Bitmap r \<Rightarrow>
             (let (response_text, ev) = get_gemini_response r;
                  st1 = st\<lparr>docx_log := docx_log st @ ev\<rparr>
              in case response_text of
                   None \<Rightarrow> st1
                 | Some t \<Rightarrow>
                     if t = [] then st1
                     else (case parse_response loads t of
                             Inl e \<Rightarrow> st1\<lparr>docx_log := docx_log st1 @ [ImageWarning (i + 1) e]\<rparr>
                           | Inr None \<Rightarrow> st1
                           | Inr (Some p) \<Rightarrow> docx_add i p st1)))"

definition docx_init :: "docx \<Rightarrow> docx_state" where
  \<comment> \<open>lines 63 to 70: the paragraphs and the native tables\<close>
  "docx_init doc =
     \<lparr>full_text = paragraphs doc,
      all_tables_data = map native_table_entry (enumerate 0 (doc_tables doc)),
      docx_log = []\<rparr>"

definition docx_loop :: "decoder \<Rightarrow> docx_state \<Rightarrow> (nat \<times> image_part) list \<Rightarrow> docx_state" where
  "docx_loop loads st us = foldl (docx_image loads) st us"

definition extract_data_from_docx ::
    "decoder \<Rightarrow> docx \<Rightarrow> abort + string \<times> table_info list \<times> event list" where
  \<comment> \<open>an exception from line 74 leaves the function before anything has been reported\<close>
  "extract_data_from_docx loads doc =
     (case image_parts doc of
        Inl e \<Rightarrow> Inl (e, [])
      | Inr parts \<Rightarrow>
          (let st = docx_loop loads (docx_init doc) (enumerate 0 parts)
           in Inr (join [NL] (full_text st), all_tables_data st, docx_log st)))"

section \<open>The format dispatcher\<close>

text \<open>
  The branch of \<^verbatim>\<open>main\<close> that runs on \<^verbatim>\<open>Extract Data\<close>. An upload is its lower-cased
  file extension together with what each reader makes of the file. The image branch
  catches \<^verbatim>\<open>json.JSONDecodeError\<close> only. The result is the pair stored in the session:
  the text (on the image branch whatever value the \<^verbatim>\<open>text\<close> field holds) and the tables.
\<close>

record extraction =
  text_result :: pyval
  table_result :: "table_info list"

record upload =
  file_extension :: string
  image_reply :: reply
  pdf_pages :: "reply list"
  docx_doc :: docx

definition extraction_init :: extraction where
  "extraction_init = \<lparr>text_result = PStr [], table_result = []\<rparr>"

definition extract_image :: "decoder \<Rightarrow> reply \<Rightarrow> abort + extraction \<times> event list" where
  "extract_image loads r =
     (let (response_text, ev) = get_gemini_response r
      in case response_text of
           None \<Rightarrow> Inr (extraction_init, ev)
         | Some t \<Rightarrow>
             if t = [] then Inr (extraction_init, ev)
             else (case json_substring t of
                     None \<Rightarrow> Inr (extraction_init, ev)
                   | Some json_string \<Rightarrow>
                       (case loads json_string of
                          Inl JSONDecodeError \<Rightarrow> Inr (extraction_init, ev @ [DecodeError])
                        | Inl e \<Rightarrow> Inl (e, ev)
                        | Inr d \<Rightarrow>
                            (case py_get d ''text'' (PStr []) of
                               Inl e \<Rightarrow> Inl (e, ev)
                             | Inr txt \<Rightarrow>
                                 (case py_get d ''table'' PNone of
                                    Inl e \<Rightarrow> Inl (e, ev)
                                  | Inr tbl \<Rightarrow>
                                      Inr (\<lparr>text_result = txt,
                                            table_result =
                                              (if truthy tbl
                                               then [\<lparr>title = ''Table from Image'', data = tbl\<rparr>]
                                               else [])\<rparr>, ev))))))"

definition main_extract :: "decoder \<Rightarrow> upload \<Rightarrow> abort + extraction \<times> event list" where
  "main_extract loads up =
     (if file_extension up \<in> set [''.jpg'', ''.jpeg'', ''.png'']
      then extract_image loads (image_reply up)
      else if file_extension up = ''.pdf''
      then (case extract_data_from_pdf loads (pdf_pages up) of
              Inl a \<Rightarrow> Inl a
            | Inr st \<Rightarrow>
                Inr (\<lparr>text_result = PStr (aggregated_text st),
                      table_result = aggregated_tables st\<rparr>, pdf_log st))
      else if file_extension up = ''.docx''
      then (case extract_data_from_docx loads (docx_doc up) of
              Inl a \<Rightarrow> Inl a
            | Inr (txt, tbls, lg) \<Rightarrow> Inr (\<lparr>text_result = PStr txt, table_result = tbls\<rparr>, lg))
      else Inr (extraction_init, []))"


section \<open>The JSON decoder\<close>

text \<open>
  \<^verbatim>\<open>json.loads\<close> belongs to the Python standard library, not to the program, and the
  pipeline above takes it as a parameter. The scenarios below run the pipeline on concrete
  replies and need the decoder's answer on them, so this section follows CPython's scanner
  (\<^verbatim>\<open>json/decoder.py\<close>, \<^verbatim>\<open>json/scanner.py\<close>): white space, strings with their escapes,
  numbers, the literals, arrays, and objects in which a repeated key keeps its first place
  and its last value. A number with a fraction or an exponent becomes a float. An integer
  of more than 4300 digits raises \<^verbatim>\<open>ValueError\<close>, which is CPython's limit on the
  conversion of a string to an \<^verbatim>\<open>int\<close>. The first argument of the three scanning
  functions bounds the number of nested calls; \<open>json_loads\<close> starts with twice the length
  of the text plus two, which the scanner cannot use up (lemma
  \<open>json_loads_no_recursion_error\<close> below). CPython's own recursion limit is not modelled.
\<close>

definition is_ws :: "char \<Rightarrow> bool" where
  "is_ws c = (c = CHR '' '' \<or> c = CHR 0x09 \<or> c = CHR 0x0A \<or> c = CHR 0x0D)"

definition skip_ws :: "string \<Rightarrow> string" where
  "skip_ws s = dropWhile is_ws s"

definition is_digit :: "char \<Rightarrow> bool" where
  "is_digit c = (48 \<le> (of_char c :: nat) \<and> (of_char c :: nat) \<le> 57)"

definition hex_value :: "char \<Rightarrow> nat option" where
  "hex_value c =
     (let n = (of_char c :: nat)
      in if 48 \<le> n \<and> n \<le> 57 then Some (n - 48)
         else if 65 \<le> n \<and> n \<le> 70 then Some (n - 55)
         else if 97 \<le> n \<and> n \<le> 102 then Some (n - 87)
         else None)"

definition hex4 :: "char \<Rightarrow> char \<Rightarrow> char \<Rightarrow> char \<Rightarrow> nat option" where
  "hex4 a b c d =
     (case (hex_value a, hex_value b, hex_value c, hex_value d) of
        (Some x, Some y, Some z, Some w) \<Rightarrow> Some (((x * 16 + y) * 16 + z) * 16 + w)
      | _ \<Rightarrow> None)"

definition utf8 :: "nat \<Rightarrow> string" where
  "utf8 n =
     (if n < 0x80 then [char_of n]
      else if n < 0x800 then [char_of (0xC0 + n div 64), char_of (0x80 + n mod 64)]
      else if n < 0x10000
      then [char_of (0xE0 + n div 4096), char_of (0x80 + n div 64 mod 64), char_of (0x80 + n mod 64)]
      else [char_of (0xF0 + n div 262144), char_of (0x80 + n div 4096 mod 64),
            char_of (0x80 + n div 64 mod 64), char_of (0x80 + n mod 64)])"

definition unescape :: "char \<Rightarrow> char option" where
  "unescape e =
     (if e = CHR 0x22 \<or> e = CHR 0x5C \<or> e = CHR ''/'' then Some e
      else if e = CHR ''b'' then Some (CHR 0x08)
      else if e = CHR ''f'' then Some (CHR 0x0C)
      else if e = CHR ''n'' then Some (CHR 0x0A)
      else if e = CHR ''r'' then Some (CHR 0x0D)
      else if e = CHR ''t'' then Some (CHR 0x09)
      else None)"

definition starts_with :: "string \<Rightarrow> string \<Rightarrow> bool" where
  "starts_with p s = (take (length p) s = p)"

definition decode_u4 :: "string \<Rightarrow> (nat \<times> string) option" where
  \<comment> \<open>the four hexadecimal digits of a \<^verbatim>\<open>\uXXXX\<close> escape\<close>
  "decode_u4 s =
     (case s of
        h1 # h2 # h3 # h4 # r \<Rightarrow> map_option (\<lambda>n. (n, r)) (hex4 h1 h2 h3 h4)
      | _ \<Rightarrow> None)"

definition scan_escape :: "string \<Rightarrow> (string \<times> string) option" where
  \<comment> \<open>what follows a backslash: the decoded characters and the rest, or \<open>None\<close> for an
      invalid escape. A high surrogate followed by the escape of a low surrogate gives one
      code point; any other surrogate is written in its three-byte form.\<close>
  "scan_escape cs =
     (case cs of
        [] \<Rightarrow> None
      | e # r \<Rightarrow>
          if e = CHR ''u''
          then (case decode_u4 r of
                  None \<Rightarrow> None
                | Some (n, r1) \<Rightarrow>
                    if 0xD800 \<le> n \<and> n \<le> 0xDBFF \<and> starts_with [CHR 0x5C, CHR ''u''] r1
                       \<and> 6 < length r1
                    then (case decode_u4 (drop 2 r1) of
                            None \<Rightarrow> None
                          | Some (m, r2) \<Rightarrow>
                              if 0xDC00 \<le> m \<and> m \<le> 0xDFFF
                              then Some (utf8 (0x10000 + (n - 0xD800) * 1024 + (m - 0xDC00)), r2)
                              else Some (utf8 n, r1))
                    else Some (utf8 n, r1))
          else map_option (\<lambda>x. ([x], r)) (unescape e))"

function scanstring :: "string \<Rightarrow> string \<Rightarrow> exn + string \<times> string" where
  "scanstring acc [] = Inl JSONDecodeError"
| "scanstring acc (c # cs) =
     (if c = CHR 0x22 then Inr (acc, cs)
      else if c = CHR 0x5C
      then (case scan_escape cs of
              None \<Rightarrow> Inl JSONDecodeError
            | Some (decoded, r) \<Rightarrow> scanstring (acc @ decoded) r)
      else if (of_char c :: nat) < 32 then Inl JSONDecodeError
      else scanstring (acc @ [c]) cs)"
  by pat_completeness auto
termination
proof -
  have d: "length s = length r + 4" if "decode_u4 s = Some (n, r)" for s n r
    using that by (auto simp: decode_u4_def split: list.splits)
  have e: "length r < length cs" if esc: "scan_escape cs = Some (decoded, r)" for cs decoded r
  proof (cases cs)
    case Nil
    then show ?thesis using esc by (simp add: scan_escape_def)
  next
    case (Cons c cs')
    show ?thesis
    proof (cases "c = CHR ''u''")
      case False
      then show ?thesis using esc Cons by (auto simp: scan_escape_def)
    next
      case True
      then obtain n r1 where u: "decode_u4 cs' = Some (n, r1)"
        using esc Cons by (auto simp: scan_escape_def split: option.splits)
      have l1: "length cs' = length r1 + 4" by (rule d [OF u])
      have "r = r1 \<or> (\<exists>m. decode_u4 (drop 2 r1) = Some (m, r))"
        using esc Cons True u by (auto simp: scan_escape_def split: option.splits if_splits)
      then show ?thesis
      proof
        assume "r = r1"
        then show ?thesis using l1 Cons by simp
      next
        assume "\<exists>m. decode_u4 (drop 2 r1) = Some (m, r)"
        then obtain m where "decode_u4 (drop 2 r1) = Some (m, r)" by blast
        from d [OF this] have "length r \<le> length r1" by simp
        then show ?thesis using l1 Cons by simp
      qed
    qed
  qed
  show ?thesis
    by (relation "measure (\<lambda>p. length (snd p))") (auto dest: e)
qed

definition int_of_digits :: "string \<Rightarrow> int" where
  "int_of_digits ds = foldl (\<lambda>a c. 10 * a + (int (of_char c) - 48)) 0 ds"

definition max_str_digits :: nat where
  "max_str_digits = 4300"

definition split_sign :: "string \<Rightarrow> bool \<times> string" where
  "split_sign s = (case s of [] \<Rightarrow> (False, s) | c # cs \<Rightarrow> if c = CHR ''-'' then (True, cs) else (False, s))"

definition split_integer :: "string \<Rightarrow> (string \<times> string) option" where
  "split_integer s =
     (case s of
        [] \<Rightarrow> None
      | d # ds \<Rightarrow>
          if d = CHR ''0'' then Some ([d], ds)
          else if is_digit d then Some (takeWhile is_digit s, dropWhile is_digit s)
          else None)"

definition split_frac :: "string \<Rightarrow> string \<times> string" where
  "split_frac s =
     (case s of
        [] \<Rightarrow> ([], s)
      | p # q \<Rightarrow>
          if p = CHR ''.'' \<and> takeWhile is_digit q \<noteq> []
          then (p # takeWhile is_digit q, dropWhile is_digit q)
          else ([], s))"

definition split_exp :: "string \<Rightarrow> string \<times> string" where
  "split_exp s =
     (case s of
        [] \<Rightarrow> ([], s)
      | e # q \<Rightarrow>
          if e = CHR ''e'' \<or> e = CHR ''E''
          then (let sg = (case q of [] \<Rightarrow> [] | x # y \<Rightarrow> if x = CHR ''+'' \<or> x = CHR ''-'' then [x] else []);
                    q' = drop (length sg) q
                in if takeWhile is_digit q' \<noteq> []
                   then (e # sg @ takeWhile is_digit q', dropWhile is_digit q')
                   else ([], s))
          else ([], s))"

definition scan_number :: "string \<Rightarrow> (exn + pyval \<times> string) option" where
  "scan_number s =
     (let (neg, r) = split_sign s
      in case split_integer r of
           None \<Rightarrow> None
         | Some (integer, r1) \<Rightarrow>
             (let (frac, r2) = split_frac r1; (ex, r3) = split_exp r2
              in if frac \<noteq> [] \<or> ex \<noteq> []
                 then Some (Inr (PFloat (float_of_literal ((if neg then ''-'' else []) @ integer @ frac @ ex)), r3))
                 else if max_str_digits < length integer then Some (Inl ValueError)
                 else Some (Inr (PInt (if neg then - int_of_digits integer else int_of_digits integer), r3))))"

fun dict_set :: "string \<Rightarrow> pyval \<Rightarrow> (string \<times> pyval) list \<Rightarrow> (string \<times> pyval) list" where
  "dict_set k v [] = [(k, v)]"
| "dict_set k v (p # ps) = (if fst p = k then (k, v) # ps else p # dict_set k v ps)"

definition dict_of_pairs :: "(string \<times> pyval) list \<Rightarrow> (string \<times> pyval) list" where
  "dict_of_pairs ps = foldl (\<lambda>d p. dict_set (fst p) (snd p) d) [] ps"

fun scan_once :: "nat \<Rightarrow> string \<Rightarrow> exn + pyval \<times> string"
  and scan_array :: "nat \<Rightarrow> pyval list \<Rightarrow> string \<Rightarrow> exn + pyval \<times> string"
  and scan_object :: "nat \<Rightarrow> (string \<times> pyval) list \<Rightarrow> string \<Rightarrow> exn + pyval \<times> string"
where
  "scan_once 0 s = Inl RecursionError"
| "scan_once (Suc n) s =
     (case s of
        [] \<Rightarrow> Inl JSONDecodeError
      | c # cs \<Rightarrow>
          if c = CHR 0x22
          then (case scanstring [] cs of Inl e \<Rightarrow> Inl e | Inr (str, r) \<Rightarrow> Inr (PStr str, r))
          else if c = CHR ''{''
          then (case skip_ws cs of
                  [] \<Rightarrow> Inl JSONDecodeError
                | c' # r \<Rightarrow> if c' = CHR ''}'' then Inr (PDict [], r) else scan_object n [] (c' # r))
          else if c = CHR ''[''
          then (case skip_ws cs of
                  [] \<Rightarrow> Inl JSONDecodeError
                | c' # r \<Rightarrow> if c' = CHR '']'' then Inr (PList [], r) else scan_array n [] (c' # r))
          else if starts_with ''null'' s then Inr (PNone, drop 4 s)
          else if starts_with ''true'' s then Inr (PBool True, drop 4 s)
          else if starts_with ''false'' s then Inr (PBool False, drop 5 s)
          else (case scan_number s of
                  Some res \<Rightarrow> res
                | None \<Rightarrow>
                    if starts_with ''NaN'' s then Inr (PFloat (float_of_literal ''nan''), drop 3 s)
                    else if starts_with ''Infinity'' s then Inr (PFloat (float_of_literal ''inf''), drop 8 s)
                    else if starts_with ''-Infinity'' s then Inr (PFloat (float_of_literal ''-inf''), drop 9 s)
                    else Inl JSONDecodeError))"
| "scan_array 0 acc s = Inl RecursionError"
| "scan_array (Suc n) acc s =
     (case scan_once n s of
        Inl e \<Rightarrow> Inl e
      | Inr (v, r) \<Rightarrow>
          (case skip_ws r of
             [] \<Rightarrow> Inl JSONDecodeError
           | c # r' \<Rightarrow>
               if c = CHR '']'' then Inr (PList (acc @ [v]), r')
               else if c = CHR '','' then scan_array n (acc @ [v]) (skip_ws r')
               else Inl JSONDecodeError))"
| "scan_object 0 acc s = Inl RecursionError"
| "scan_object (Suc n) acc s =
     (case s of
        [] \<Rightarrow> Inl JSONDecodeError
      | q # cs \<Rightarrow>
          if q \<noteq> CHR 0x22 then Inl JSONDecodeError
          else (case scanstring [] cs of
                  Inl e \<Rightarrow> Inl e
                | Inr (k, r) \<Rightarrow>
                    (case skip_ws r of
                       [] \<Rightarrow> Inl JSONDecodeError
                     | c # r1 \<Rightarrow>
                         if c \<noteq> CHR '':'' then Inl JSONDecodeError
                         else (case scan_once n (skip_ws r1) of
                                 Inl e \<Rightarrow> Inl e
                               | Inr (v, r2) \<Rightarrow>
                                   (case skip_ws r2 of
                                      [] \<Rightarrow> Inl JSONDecodeError
                                    | c' # r3 \<Rightarrow>
                                        if c' = CHR ''}'' then Inr (PDict (dict_of_pairs (acc @ [(k, v)])), r3)
                                        else if c' = CHR '','' then scan_object n (acc @ [(k, v)]) (skip_ws r3)
                                        else Inl JSONDecodeError)))))"

definition json_loads :: "string \<Rightarrow> exn + pyval" where
  "json_loads s =
     (if starts_with [CHR 0xEF, CHR 0xBB, CHR 0xBF] s then Inl JSONDecodeError
      else case scan_once (2 * length s + 2) (skip_ws s) of
             Inl e \<Rightarrow> Inl e
           | Inr (v, r) \<Rightarrow> if skip_ws r = [] then Inr v else Inl JSONDecodeError)"

section \<open>Rendering and export\<close>

text \<open>
  The second half of \<^verbatim>\<open>main\<close> shows the tables and builds the downloads. It reads the
  table data with \<^verbatim>\<open>len\<close>, \<^verbatim>\<open>[1:]\<close> and \<^verbatim>\<open>[0]\<close>, which raise on values that
  are not sequences, and hands it to pandas and to two Streamlit widgets. These library
  calls are parameters, and each of them may raise: \<open>DataFrame\<close> is
  \<^verbatim>\<open>pd.DataFrame(data)\<close>, \<open>DataFrame_columns\<close> is \<^verbatim>\<open>pd.DataFrame(data, columns=...)\<close>,
  \<open>to_string\<close> is \<^verbatim>\<open>to_string(index=False, header=False)\<close>, \<open>to_csv\<close> is
  \<^verbatim>\<open>to_csv(index=False).encode('utf-8')\<close> (the encoding raises on a string that
  holds a lone surrogate), \<open>st_dataframe\<close> is \<^verbatim>\<open>st.dataframe(df)\<close>,
  \<open>st_download_text\<close> is the call of \<^verbatim>\<open>st.download_button\<close> for the text file at
  line 240 and \<open>st_download_button\<close> the one for a CSV file at line 252. The widgets
  answer with the exception they raise, if any. The calls that only show a message
  (\<^verbatim>\<open>st.markdown\<close>, \<^verbatim>\<open>st.info\<close>, \<^verbatim>\<open>st.warning\<close>, \<^verbatim>\<open>st.json\<close>) are taken to return.
\<close>

record download =
  label :: string
  file_data :: string
  file_name :: string
  widget_key :: string

record 'f libraries =
  DataFrame :: "pyval \<Rightarrow> exn + 'f"
  DataFrame_columns :: "pyval \<Rightarrow> pyval \<Rightarrow> exn + 'f"
  to_string :: "'f \<Rightarrow> exn + string"
  to_csv :: "'f \<Rightarrow> exn + string"
  st_dataframe :: "'f \<Rightarrow> exn option"
  st_download_text :: "string \<Rightarrow> exn option"
  st_download_button :: "download \<Rightarrow> exn option"

text \<open>A Python string counts code points; in UTF-8 these are the bytes that are not
  continuation bytes.\<close>

definition utf8_cont :: "char \<Rightarrow> bool" where
  "utf8_cont c = (128 \<le> (of_char c :: nat) \<and> (of_char c :: nat) < 192)"

fun py_len :: "pyval \<Rightarrow> exn + nat" where
  "py_len (PList xs) = Inr (length xs)"
| "py_len (PStr s) = Inr (length (filter (\<lambda>c. \<not> utf8_cont c) s))"
| "py_len (PDict kvs) = Inr (length kvs)"
| "py_len v = Inl TypeError"

fun py_tail :: "pyval \<Rightarrow> exn + pyval" where
  \<comment> \<open>\<^verbatim>\<open>v[1:]\<close>\<close>
  "py_tail (PList xs) = Inr (PList (drop 1 xs))"
| "py_tail (PStr s) = Inr (PStr (dropWhile utf8_cont (drop 1 s)))"
| "py_tail v = Inl TypeError"

fun py_first :: "pyval \<Rightarrow> exn + pyval" where
  \<comment> \<open>\<^verbatim>\<open>v[0]\<close>\<close>
  "py_first (PList xs) = (case xs of [] \<Rightarrow> Inl IndexError | x # _ \<Rightarrow> Inr x)"
| "py_first (PStr s) =
     (case s of [] \<Rightarrow> Inl IndexError | c # cs \<Rightarrow> Inr (PStr (c # takeWhile utf8_cont cs)))"
| "py_first (PDict kvs) = Inl KeyError"
| "py_first v = Inl TypeError"

text \<open>The frame of a table with a header row: lines 219 and 251.\<close>

definition header_frame :: "'f libraries \<Rightarrow> pyval \<Rightarrow> exn + 'f" where
  "header_frame pd table_rows =
     (case py_tail table_rows of
        Inl e \<Rightarrow> Inl e
      | Inr body \<Rightarrow>
          (case py_first table_rows of
             Inl e \<Rightarrow> Inl e
           | Inr header \<Rightarrow> DataFrame_columns pd body header))"

text \<open>Lines 213 to 229: what is shown for one table. The body is inside
  \<^verbatim>\<open>try ... except Exception\<close>.\<close>

datatype 'f widget =
    Markdown string
  | Dataframe 'f
  | InfoEmpty
  | FormatWarning
  | Json pyval

definition show_frame :: "'f libraries \<Rightarrow> 'f \<Rightarrow> exn + 'f widget" where
  \<comment> \<open>\<^verbatim>\<open>st.dataframe(df)\<close>\<close>
  "show_frame pd df = (case st_dataframe pd df of Some e \<Rightarrow> Inl e | None \<Rightarrow> Inr (Dataframe df))"

definition render_try :: "'f libraries \<Rightarrow> table_info \<Rightarrow> exn + 'f widget" where
  "render_try pd table_info =
     (let table_rows = data table_info
      in if truthy table_rows
         then (case py_len table_rows of
                 Inl e \<Rightarrow> Inl e
               | Inr n \<Rightarrow>
                   if 1 < n
                   then (case header_frame pd table_rows of
                           Inl e \<Rightarrow> Inl e
                         | Inr df \<Rightarrow> show_frame pd df)
                   else (case DataFrame pd table_rows of
                           Inl e \<Rightarrow> Inl e
                         | Inr df \<Rightarrow> show_frame pd df))
         else Inr InfoEmpty)"

definition render_table :: "'f libraries \<Rightarrow> table_info \<Rightarrow> 'f widget list" where
  "render_table pd table_info =
     Markdown (title table_info) #
     (case render_try pd table_info of
        Inl e \<Rightarrow> [FormatWarning, Json (data table_info)]
      | Inr w \<Rightarrow> [w])"

text \<open>Lines 234 to 238: the text download. No exception is caught here.\<close>

definition rule20 :: string where
  "rule20 = replicate 20 CHR ''=''"

definition txt_header :: "pyval \<Rightarrow> string" where
  "txt_header extracted_text = ''Extracted Text'' @ [NL] @ rule20 @ [NL] @ py_str extracted_text"

definition txt_table_heading :: "table_info \<Rightarrow> string" where
  "txt_table_heading table_info = [NL, NL, NL] @ title table_info @ [NL] @ rule20 @ [NL]"

fun txt_tables :: "'f libraries \<Rightarrow> string \<Rightarrow> table_info list \<Rightarrow> exn + string" where
  "txt_tables pd txt_content [] = Inr txt_content"
| "txt_tables pd txt_content (table_info # rest) =
     (case DataFrame pd (data table_info) of
        Inl e \<Rightarrow> Inl e
      | Inr df \<Rightarrow>
          (case to_string pd df of
             Inl e \<Rightarrow> Inl e
           | Inr grid \<Rightarrow>
               txt_tables pd (txt_content @ txt_table_heading table_info @ grid) rest))"

definition export_txt :: "'f libraries \<Rightarrow> extraction \<Rightarrow> exn + string" where
  "export_txt pd res = txt_tables pd (txt_header (text_result res)) (table_result res)"

text \<open>Lines 245 to 260: the CSV downloads. The file name is
  \<^verbatim>\<open>re.sub(r'[^a-z0-9_]+', '', title.lower().replace(' ', '_'))\<close>. The substitution
  scans from the left and deletes each maximal run of characters outside the class.
  \<^verbatim>\<open>str.lower\<close> follows the Unicode case mapping: on a string of ASCII characters it
  replaces the letters \<^verbatim>\<open>A\<close> to \<^verbatim>\<open>Z\<close> and nothing else; on other strings it also changes
  letters outside ASCII, sometimes into ASCII ones (U+212A, the Kelvin sign, becomes
  \<^verbatim>\<open>k\<close>), and that part of the mapping is left unspecified.\<close>

definition lower_char :: "char \<Rightarrow> char" where
  "lower_char c =
     (let n = (of_char c :: nat)
      in if 65 \<le> n \<and> n \<le> 90 then ''abcdefghijklmnopqrstuvwxyz'' ! (n - 65) else c)"

definition is_ascii :: "string \<Rightarrow> bool" where
  "is_ascii s = list_all (\<lambda>c. (of_char c :: nat) < 128) s"

definition lower_unicode :: "string \<Rightarrow> string" where
  \<comment> \<open>\<^verbatim>\<open>s.lower()\<close> for a string with characters outside ASCII; unspecified.\<close>
  "lower_unicode = (SOME f. True)"

definition py_lower :: "string \<Rightarrow> string" where
  \<comment> \<open>\<^verbatim>\<open>s.lower()\<close>\<close>
  "py_lower s = (if is_ascii s then map lower_char s else lower_unicode s)"

definition py_replace :: "char \<Rightarrow> char \<Rightarrow> string \<Rightarrow> string" where
  "py_replace a b s = map (\<lambda>c. if c = a then b else c) s"

definition filename_char :: "char \<Rightarrow> bool" where
  \<comment> \<open>the class \<^verbatim>\<open>[a-z0-9_]\<close>\<close>
  "filename_char c =
     (let n = (of_char c :: nat)
      in (97 \<le> n \<and> n \<le> 122) \<or> (48 \<le> n \<and> n \<le> 57) \<or> c = CHR ''_'')"

function re_sub_delete :: "(char \<Rightarrow> bool) \<Rightarrow> string \<Rightarrow> string" where
  "re_sub_delete keep [] = []"
| "re_sub_delete keep (c # cs) =
     (if keep c then c # re_sub_delete keep cs
      else re_sub_delete keep (dropWhile (\<lambda>x. \<not> keep x) cs))"
  by pat_completeness auto
termination
  by (relation "measure (\<lambda>p. length (snd p))") (auto simp: length_dropWhile_le less_Suc_eq_le)

definition safe_filename :: "string \<Rightarrow> string" where
  "safe_filename t = re_sub_delete filename_char (py_replace CHR '' '' CHR ''_'' (py_lower t))"

datatype csv_outcome =
    CsvButton download
  | CsvWarning string
  | CsvSkipped

definition csv_button :: "'f libraries \<Rightarrow> nat \<Rightarrow> table_info \<Rightarrow> 'f \<Rightarrow> exn + download option" where
  \<comment> \<open>lines 250 to 258, once the frame is built: the bytes of the file, then the widget\<close>
  "csv_button pd i table_info df =
     (case to_csv pd df of
        Inl e \<Rightarrow> Inl e
      | Inr csv \<Rightarrow>
          (let d = \<lparr>label = ''Download '' @ [CHR 0x27] @ title table_info @ [CHR 0x27],
                    file_data = csv,
                    file_name = safe_filename (title table_info) @ ''.csv'',
                    widget_key = ''csv_dl_'' @ str_nat i\<rparr>
           in case st_download_button pd d of
                Some e \<Rightarrow> Inl e
              | None \<Rightarrow> Inr (Some d)))"

definition csv_try :: "'f libraries \<Rightarrow> nat \<Rightarrow> table_info \<Rightarrow> exn + download option" where
  "csv_try pd i table_info =
     (let table_rows = data table_info
      in if truthy table_rows
         then (case py_len table_rows of
                 Inl e \<Rightarrow> Inl e
               | Inr n \<Rightarrow>
                   if 1 < n
                   then (case header_frame pd table_rows of
                           Inl e \<Rightarrow> Inl e
                         | Inr df \<Rightarrow> csv_button pd i table_info df)
                   else Inr None)
         else Inr None)"

definition csv_entry :: "'f libraries \<Rightarrow> nat \<times> table_info \<Rightarrow> csv_outcome" where
  "csv_entry pd it =
     (case csv_try pd (fst it) (snd it) of
        Inl e \<Rightarrow> CsvWarning (title (snd it))
      | Inr None \<Rightarrow> CsvSkipped
      | Inr (Some d) \<Rightarrow> CsvButton d)"

definition export_csv :: "'f libraries \<Rightarrow> table_info list \<Rightarrow> csv_outcome list" where
  "export_csv pd tables_data = map (csv_entry pd) (enumerate 0 tables_data)"

text \<open>The whole download section: the text download is built and offered first, and the
  CSV loop runs only if that did not raise.\<close>

definition downloads :: "'f libraries \<Rightarrow> extraction \<Rightarrow> exn + string \<times> csv_outcome list" where
  "downloads pd res =
     (case export_txt pd res of
        Inl e \<Rightarrow> Inl e
      | Inr txt_content \<Rightarrow>
          (case st_download_text pd txt_content of
             Some e \<Rightarrow> Inl e
           | None \<Rightarrow> Inr (txt_content, export_csv pd (table_result res))))"

section \<open>A pandas double\<close>

text \<open>
  The scenarios need an answer from pandas on concrete tables. The double below gives
  the answers that are certain and leaves the rest unspecified. Scalar data makes the
  constructor raise \<^verbatim>\<open>ValueError\<close> (``DataFrame constructor not properly called!''). A
  list of lists becomes a frame as wide as its longest row, shorter rows filled with
  \<^verbatim>\<open>None\<close>; when column labels are passed and their number differs from that width, the
  constructor raises \<^verbatim>\<open>ValueError\<close> (``2 columns passed, passed data had 3 columns'').
  The two printing functions return on a frame whose labels and cells are \<^verbatim>\<open>None\<close>,
  integers or ASCII strings; the text they return depends on the pandas version and the
  platform and is unspecified, and so is all they do on other frames. The download widget
  takes every file of the CSV loop (byte strings, under keys that differ); what
  \<^verbatim>\<open>st.dataframe\<close> and the download widget for the text file do is unspecified.
\<close>

record frame =
  column_labels :: "pyval list"
  cells :: "pyval list list"

fun is_scalar :: "pyval \<Rightarrow> bool" where
  "is_scalar (PBool b) = True"
| "is_scalar (PInt i) = True"
| "is_scalar (PFloat x) = True"
| "is_scalar (PStr s) = True"
| "is_scalar v = False"

fun is_list :: "pyval \<Rightarrow> bool" where
  "is_list (PList xs) = True"
| "is_list v = False"

fun items :: "pyval \<Rightarrow> pyval list" where
  "items (PList xs) = xs"
| "items v = []"

definition grid_width :: "pyval list \<Rightarrow> nat" where
  "grid_width rows = foldr (\<lambda>r w. max (length (items r)) w) rows 0"

definition pad_row :: "nat \<Rightarrow> pyval \<Rightarrow> pyval list" where
  "pad_row w r = items r @ replicate (w - length (items r)) PNone"

definition frame_other :: "pyval \<Rightarrow> exn + frame" where
  "frame_other = (SOME f. True)"

definition frame_columns_other :: "pyval \<Rightarrow> pyval \<Rightarrow> exn + frame" where
  "frame_columns_other = (SOME f. True)"

fun plain_value :: "pyval \<Rightarrow> bool" where
  "plain_value PNone = True"
| "plain_value (PInt i) = True"
| "plain_value (PStr s) = is_ascii s"
| "plain_value v = False"

definition plain_frame :: "frame \<Rightarrow> bool" where
  "plain_frame f =
     (list_all plain_value (column_labels f) \<and> list_all (list_all plain_value) (cells f))"

definition frame_text :: "frame \<Rightarrow> string" where
  "frame_text = (SOME f. True)"

definition frame_csv :: "frame \<Rightarrow> string" where
  "frame_csv = (SOME f. True)"

definition frame_to_string_other :: "frame \<Rightarrow> exn + string" where
  "frame_to_string_other = (SOME f. True)"

definition frame_to_csv_other :: "frame \<Rightarrow> exn + string" where
  "frame_to_csv_other = (SOME f. True)"

definition frame_shown :: "frame \<Rightarrow> exn option" where
  "frame_shown = (SOME f. True)"

definition text_offered :: "string \<Rightarrow> exn option" where
  "text_offered = (SOME f. True)"

definition frame_to_string :: "frame \<Rightarrow> exn + string" where
  "frame_to_string f = (if plain_frame f then Inr (frame_text f) else frame_to_string_other f)"

definition frame_to_csv :: "frame \<Rightarrow> exn + string" where
  "frame_to_csv f = (if plain_frame f then Inr (frame_csv f) else frame_to_csv_other f)"

definition frame_of :: "pyval \<Rightarrow> exn + frame" where
  "frame_of d =
     (if is_scalar d then Inl ValueError
      else if is_list d \<and> list_all is_list (items d)
      then Inr \<lparr>column_labels = map (\<lambda>j. PInt (int j)) [0..<grid_width (items d)],
                cells = map (pad_row (grid_width (items d))) (items d)\<rparr>
      else frame_other d)"

definition frame_of_columns :: "pyval \<Rightarrow> pyval \<Rightarrow> exn + frame" where
  "frame_of_columns d cols =
     (if is_scalar d then Inl ValueError
      else if is_list d \<and> items d \<noteq> [] \<and> list_all is_list (items d)
              \<and> is_list cols \<and> list_all (\<lambda>h. h = PNone \<or> is_scalar h) (items cols)
      then (if grid_width (items d) = length (items cols)
            then Inr \<lparr>column_labels = items cols,
                      cells = map (pad_row (grid_width (items d))) (items d)\<rparr>
            else Inl ValueError)
      else frame_columns_other d cols)"

definition pandas_double :: "frame libraries" where
  "pandas_double =
     \<lparr>DataFrame = frame_of, DataFrame_columns = frame_of_columns,
      to_string = frame_to_string, to_csv = frame_to_csv,
      st_dataframe = frame_shown, st_download_text = text_offered,
      st_download_button = (\<lambda>d. None)\<rparr>"

section \<open>What a unit contributes\<close>

text \<open>
  The statements about the aggregates need names for what one unit yields. A page (or an
  embedded image) has fields when its model call returned a non-empty reply and the
  parsing step produced the two values; \<open>text_of\<close> and \<open>table_of\<close> are these values, and
  the empty string and the empty list for a unit without fields.
\<close>

definition page_fields :: "decoder \<Rightarrow> reply \<Rightarrow> (pyval \<times> pyval) option" where
  "page_fields loads r =
     (case r of
        Inl e \<Rightarrow> None
      | Inr t \<Rightarrow>
          if t = [] then None
          else (case parse_response loads t of Inr (Some p) \<Rightarrow> Some p | _ \<Rightarrow> None))"

definition text_of :: "decoder \<Rightarrow> reply \<Rightarrow> pyval" where
  "text_of loads r = (case page_fields loads r of Some p \<Rightarrow> fst p | None \<Rightarrow> PStr [])"

definition table_of :: "decoder \<Rightarrow> reply \<Rightarrow> pyval" where
  "table_of loads r = (case page_fields loads r of Some p \<Rightarrow> snd p | None \<Rightarrow> PList [])"

definition text_pages :: "decoder \<Rightarrow> (nat \<times> reply) list \<Rightarrow> (nat \<times> reply) list" where
  "text_pages loads us = filter (\<lambda>u. truthy (text_of loads (snd u))) us"

definition table_pages :: "decoder \<Rightarrow> (nat \<times> reply) list \<Rightarrow> (nat \<times> reply) list" where
  "table_pages loads us = filter (\<lambda>u. truthy (table_of loads (snd u))) us"

definition part_table :: "decoder \<Rightarrow> image_part \<Rightarrow> pyval" where
  "part_table loads part = (case part of Undecodable e \<Rightarrow> PList [] | Bitmap r \<Rightarrow> table_of loads r)"

definition table_parts :: "decoder \<Rightarrow> (nat \<times> image_part) list \<Rightarrow> (nat \<times> image_part) list" where
  "table_parts loads us = filter (\<lambda>u. truthy (part_table loads (snd u))) us"


section \<open>Scenario inputs\<close>


text \<open>Two further replies: one with a text and no table, one with an empty text and a
  table, wrapped in prose.\<close>

definition reply_text_only :: string where
  "reply_text_only = ''{\"text\":\"Hello\"}''"

definition reply_table_only :: string where
  "reply_table_only = ''Sure. {\"text\":\"\",\"table\":[[\"A\",\"B\"],[\"1\",\"2\"]]}''"

definition grid_ab :: pyval where
  "grid_ab = PList [PList [PStr ''A'', PStr ''B''], PList [PStr ''1'', PStr ''2'']]"


text \<open>A Word upload with one paragraph, one native table without rows, two relationships
  that are not images (the style sheet and a hyperlink), and one embedded image for which
  the model sends a table.\<close>

definition docx_upload :: upload where
  "docx_upload =
     \<lparr>file_extension = ''.docx'',
      image_reply = Inl (OtherException ''not an image''),
      pdf_pages = [],
      docx_doc =
        \<lparr>paragraphs = [''Intro''],
         doc_tables = [[]],
         rels = [InternalRel ''styles.xml'' (Undecodable (OtherException ''not an image'')),
                 ExternalRel ''https://example.com/terms'',
                 InternalRel ''media/image1.png'' (Bitmap (Inr reply_table_only))]\<rparr>\<rparr>"


text \<open>A reply whose \<^verbatim>\<open>text\<close> value is an integer of 4301 digits, and a Word document with
  two embedded images, the first answered by that reply and the second by the reply with
  a text only.\<close>

definition reply_long_int :: string where
  "reply_long_int = ''{\"text\": '' @ replicate 4301 CHR ''1'' @ ''}''"


definition docx_two_images :: docx where
  "docx_two_images =
     \<lparr>paragraphs = [],
      doc_tables = [],
      rels = [InternalRel ''media/image1.png'' (Bitmap (Inr reply_long_int)),
              InternalRel ''media/image2.png'' (Bitmap (Inr reply_text_only))]\<rparr>"









text \<open>A PNG upload for which the model puts a sentence where the table should be, and what
  the dispatcher makes of it.\<close>

definition reply_no_table :: string where
  "reply_no_table = ''{\"text\":\"Invoice 42\",\"table\":\"No table found\"}''"

definition table_string :: table_info where
  "table_string = \<lparr>title = ''Table from Image'', data = PStr ''No table found''\<rparr>"

definition result_string :: extraction where
  "result_string = \<lparr>text_result = PStr ''Invoice 42'', table_result = [table_string]\<rparr>"


definition png_upload_no_table :: upload where
  "png_upload_no_table =
     \<lparr>file_extension = ''.png'',
      image_reply = Inr reply_no_table,
      pdf_pages = [],
      docx_doc = \<lparr>paragraphs = [], doc_tables = [], rels = []\<rparr>\<rparr>"


text \<open>A Word upload with one paragraph, one native table of two rows, one embedded image
  and one picture that is linked instead of embedded: its relationship is external and its
  target reference is the address of the picture.\<close>

definition docx_linked_picture :: docx where
  "docx_linked_picture =
     \<lparr>paragraphs = [''Intro''],
      doc_tables = [[[''A'', ''B''], [''1'', ''2'']]],
      rels = [InternalRel ''media/image1.png'' (Bitmap (Inr reply_table_only)),
              ExternalRel ''https://example.com/images/logo.png'']\<rparr>"

definition docx_linked_upload :: upload where
  "docx_linked_upload =
     \<lparr>file_extension = ''.docx'',
      image_reply = Inl (OtherException ''not an image''),
      pdf_pages = [],
      docx_doc = docx_linked_picture\<rparr>"


text \<open>The same document with a second embedded part, one that \<^verbatim>\<open>Image.open\<close> cannot read,
  in place of the linked picture.\<close>

definition docx_embedded_picture :: docx where
  "docx_embedded_picture =
     \<lparr>paragraphs = [''Intro''],
      doc_tables = [[[''A'', ''B''], [''1'', ''2'']]],
      rels = [InternalRel ''media/image1.png'' (Bitmap (Inr reply_table_only)),
              InternalRel ''media/image2.png'' (Undecodable (OtherException ''cannot identify image file''))]\<rparr>"


text \<open>A reply of the same shape as the one with the long integer, with an integer of three
  digits; a table whose title has capitals, spaces, digits and punctuation; and a table
  whose data is a sentence, as an embedded image can yield it.\<close>

definition reply_short_int :: string where
  "reply_short_int = ''{\"text\": 111}''"

definition table_report :: table_info where
  "table_report = \<lparr>title = ''Q3 Report (final) - v2.1!'', data = grid_ab\<rparr>"



section \<open>The decoder's bound is never reached\<close>

text \<open>
  Every successful scan consumes at least one character, so the number of nested calls
  stays below twice the length of the text: \<open>json_loads\<close> never answers with the
  \<^verbatim>\<open>RecursionError\<close> that stands for an exhausted bound.
\<close>

lemma decode_u4_length: "decode_u4 s = Some (n, r) \<Longrightarrow> length s = length r + 4"
  by (auto simp: decode_u4_def split: list.splits)

lemma scan_escape_shorter:
  assumes "scan_escape cs = Some (decoded, r)"
  shows "length r < length cs"
proof (cases cs)
  case Nil
  then show ?thesis using assms by (simp add: scan_escape_def)
next
  case (Cons c cs')
  show ?thesis
  proof (cases "c = CHR ''u''")
    case False
    then show ?thesis using assms Cons by (auto simp: scan_escape_def)
  next
    case True
    then obtain n r1 where u: "decode_u4 cs' = Some (n, r1)"
      using assms Cons by (auto simp: scan_escape_def split: option.splits)
    have l1: "length cs' = length r1 + 4" by (rule decode_u4_length [OF u])
    have "r = r1 \<or> (\<exists>m. decode_u4 (drop 2 r1) = Some (m, r))"
      using assms Cons True u by (auto simp: scan_escape_def split: option.splits if_splits)
    then show ?thesis
    proof
      assume "r = r1"
      then show ?thesis using l1 Cons by simp
    next
      assume "\<exists>m. decode_u4 (drop 2 r1) = Some (m, r)"
      then obtain m where "decode_u4 (drop 2 r1) = Some (m, r)" by blast
      from decode_u4_length [OF this] have "length r \<le> length r1" by simp
      then show ?thesis using l1 Cons by simp
    qed
  qed
qed

lemma scanstring_shorter: "scanstring acc s = Inr (str, r) \<Longrightarrow> length r < length s"
proof (induction acc s rule: scanstring.induct)
  case (1 acc)
  then show ?case by simp
next
  case (2 acc c cs)
  show ?case
  proof (cases "c = CHR 0x22")
    case True
    then show ?thesis using 2(3) by simp
  next
    case q: False
    show ?thesis
    proof (cases "c = CHR 0x5C")
      case True
      then obtain decoded r1 where e: "scan_escape cs = Some (decoded, r1)"
        and s: "scanstring (acc @ decoded) r1 = Inr (str, r)"
        using 2(3) q by (auto split: option.splits)
      from 2(1) [OF q True e refl s] scan_escape_shorter [OF e]
      show ?thesis by simp
    next
      case False
      then have c: "\<not> (of_char c :: nat) < 32" and s: "scanstring (acc @ [c]) cs = Inr (str, r)"
        using 2(3) q by (auto split: if_splits)
      from 2(2) [OF q False c s] show ?thesis by simp
    qed
  qed
qed

lemma scanstring_error: "scanstring acc s = Inl e \<Longrightarrow> e = JSONDecodeError"
  by (induction acc s rule: scanstring.induct) (auto split: if_splits option.splits)

lemma skip_ws_length: "length (skip_ws s) \<le> length s"
  by (simp add: skip_ws_def length_dropWhile_le)

lemma skip_ws_Cons_length: "skip_ws s = c # r \<Longrightarrow> length r < length s"
  using skip_ws_length [of s] by simp

lemma split_sign_length: "split_sign s = (neg, r) \<Longrightarrow> length r \<le> length s"
  by (auto simp: split_sign_def split: list.splits if_splits)

lemma split_integer_length: "split_integer s = Some (i, r) \<Longrightarrow> length r < length s"
  by (auto simp: split_integer_def less_Suc_eq_le length_dropWhile_le split: list.splits if_splits)

lemma split_frac_length: "split_frac s = (f, r) \<Longrightarrow> length r \<le> length s"
  by (auto simp: split_frac_def le_SucI length_dropWhile_le split: list.splits if_splits)

lemma dropWhile_le_Suc: "length (dropWhile P xs) \<le> Suc (length xs)"
  "length (dropWhile P xs) \<le> Suc (Suc (length xs))"
  using length_dropWhile_le [of P xs] by simp_all

lemma split_exp_length: "split_exp s = (e, r) \<Longrightarrow> length r \<le> length s"
  by (auto simp: split_exp_def Let_def dropWhile_le_Suc split: list.splits if_splits)

lemma scan_number_shorter:
  assumes "scan_number s = Some (Inr (v, r))"
  shows "length r < length s"
proof -
  obtain neg r0 where a: "split_sign s = (neg, r0)" by (cases "split_sign s")
  from assms a obtain i r1 where b: "split_integer r0 = Some (i, r1)"
    by (auto simp: scan_number_def split: option.splits)
  obtain f r2 where c: "split_frac r1 = (f, r2)" by (cases "split_frac r1")
  obtain e r3 where d: "split_exp r2 = (e, r3)" by (cases "split_exp r2")
  from assms a b c d have "r = r3"
    by (auto simp: scan_number_def split: if_splits)
  then show ?thesis
    using split_sign_length [OF a] split_integer_length [OF b] split_frac_length [OF c]
      split_exp_length [OF d] by simp
qed

lemma scan_number_error: "scan_number s = Some (Inl e) \<Longrightarrow> e = ValueError"
  by (auto simp: scan_number_def Let_def split: prod.splits option.splits if_splits)

lemma scan_consumes_all:
  "(\<forall>s v r. scan_once n s = Inr (v, r) \<longrightarrow> length r < length s)
   \<and> (\<forall>acc s v r. scan_array n acc s = Inr (v, r) \<longrightarrow> length r < length s)
   \<and> (\<forall>acc s v r. scan_object n acc s = Inr (v, r) \<longrightarrow> length r < length s)"
proof (induction n)
  case 0
  show ?case by simp
next
  case (Suc n)
  note o = Suc [THEN conjunct1, rule_format]
  note a = Suc [THEN conjunct2, THEN conjunct1, rule_format]
  note b = Suc [THEN conjunct2, THEN conjunct2, rule_format]
  have 1: "length r < length s" if h: "scan_once (Suc n) s = Inr (v, r)" for s v r
  proof (cases s)
    case Nil
    then show ?thesis using h by simp
  next
    case (Cons c cs)
    consider (str) "c = CHR 0x22"
      | (obj) "c \<noteq> CHR 0x22" "c = CHR ''{''"
      | (arr) "c \<noteq> CHR 0x22" "c \<noteq> CHR ''{''" "c = CHR ''[''"
      | (atom) "c \<noteq> CHR 0x22" "c \<noteq> CHR ''{''" "c \<noteq> CHR ''[''"
      by blast
    then show ?thesis
    proof cases
      case str
      then show ?thesis
        using h Cons by (auto split: sum.splits dest: scanstring_shorter)
    next
      case obj
      then obtain c' r' where w: "skip_ws cs = c' # r'"
        using h Cons by (auto split: list.splits)
      from skip_ws_Cons_length [OF w] skip_ws_length [of cs] w
      have l: "length r' < length cs" "length (c' # r') \<le> length cs" by simp_all
      show ?thesis
        using h Cons obj w l b [of "[]" "c' # r'" v r]
        by (auto split: if_splits)
    next
      case arr
      then obtain c' r' where w: "skip_ws cs = c' # r'"
        using h Cons by (auto split: list.splits)
      from skip_ws_Cons_length [OF w] skip_ws_length [of cs] w
      have l: "length r' < length cs" "length (c' # r') \<le> length cs" by simp_all
      show ?thesis
        using h Cons arr w l a [of "[]" "c' # r'" v r]
        by (auto split: if_splits)
    next
      case atom
      have d: "length (drop k s) < length s" if "0 < k" for k
        using that Cons by simp
      show ?thesis
        using h atom d scan_number_shorter [of s v r]
        unfolding Cons [symmetric]
        by (cases s) (auto simp: Cons split: if_splits option.splits)
    qed
  qed
  have 2: "length r < length s" if h: "scan_array (Suc n) acc s = Inr (v, r)" for acc s v r
  proof -
    from h obtain v1 r1 where e: "scan_once n s = Inr (v1, r1)"
      by (auto split: sum.splits)
    from h e obtain c r2 where w: "skip_ws r1 = c # r2"
      by (auto split: list.splits)
    have l: "length r2 < length r1" by (rule skip_ws_Cons_length [OF w])
    have m: "length r1 < length s" by (rule o [OF e])
    from h e w have "r = r2 \<or> scan_array n (acc @ [v1]) (skip_ws r2) = Inr (v, r)"
      by (auto split: if_splits)
    then show ?thesis
    proof
      assume "r = r2"
      then show ?thesis using l m by simp
    next
      assume "scan_array n (acc @ [v1]) (skip_ws r2) = Inr (v, r)"
      from a [OF this] skip_ws_length [of r2] l m show ?thesis by simp
    qed
  qed
  have 3: "length r < length s" if h: "scan_object (Suc n) acc s = Inr (v, r)" for acc s v r
  proof -
    from h obtain q cs where s: "s = q # cs" by (cases s) auto
    from h s obtain k r0 where k: "scanstring [] cs = Inr (k, r0)"
      by (auto split: if_splits sum.splits)
    from h s k obtain c r1 where w1: "skip_ws r0 = c # r1"
      by (auto split: if_splits list.splits)
    from h s k w1 obtain v1 r2 where e: "scan_once n (skip_ws r1) = Inr (v1, r2)"
      by (auto split: if_splits sum.splits)
    from h s k w1 e obtain c' r3 where w2: "skip_ws r2 = c' # r3"
      by (auto split: if_splits list.splits)
    have l0: "length r0 < length cs" by (rule scanstring_shorter [OF k])
    have l1: "length r1 < length r0" by (rule skip_ws_Cons_length [OF w1])
    have l2: "length r2 < length (skip_ws r1)" by (rule o [OF e])
    have l3: "length r3 < length r2" by (rule skip_ws_Cons_length [OF w2])
    have lt: "length r3 < length s"
      using l0 l1 l2 l3 skip_ws_length [of r1] s by simp
    from h s k w1 e w2 have "r = r3 \<or> scan_object n (acc @ [(k, v1)]) (skip_ws r3) = Inr (v, r)"
      by (auto split: if_splits)
    then show ?thesis
    proof
      assume "r = r3"
      then show ?thesis using lt by simp
    next
      assume "scan_object n (acc @ [(k, v1)]) (skip_ws r3) = Inr (v, r)"
      from b [OF this] skip_ws_length [of r3] lt show ?thesis by simp
    qed
  qed
  show ?case using 1 2 3 by blast
qed

lemma scan_consumes:
  "scan_once n s = Inr (v, r) \<Longrightarrow> length r < length s"
  "scan_array n vs s = Inr (v, r) \<Longrightarrow> length r < length s"
  "scan_object n kvs s = Inr (v, r) \<Longrightarrow> length r < length s"
  by (rule scan_consumes_all [THEN conjunct1, rule_format],
      assumption,
      rule scan_consumes_all [THEN conjunct2, THEN conjunct1, rule_format],
      assumption,
      rule scan_consumes_all [THEN conjunct2, THEN conjunct2, rule_format],
      assumption)

lemma fuel_step_once:
  assumes o: "\<And>s. 2 * length s + 2 \<le> n \<Longrightarrow> scan_once n s \<noteq> Inl RecursionError"
    and a: "\<And>vs s. 2 * length s + 3 \<le> n \<Longrightarrow> scan_array n vs s \<noteq> Inl RecursionError"
    and b: "\<And>kvs s. 2 * length s + 3 \<le> n \<Longrightarrow> scan_object n kvs s \<noteq> Inl RecursionError"
    and f: "2 * length s + 2 \<le> Suc n"
  shows "scan_once (Suc n) s \<noteq> Inl RecursionError"
proof (cases s)
  case Nil
  then show ?thesis by simp
next
  case (Cons c cs)
  consider (str) "c = CHR 0x22"
    | (obj) "c \<noteq> CHR 0x22" "c = CHR ''{''"
    | (arr) "c \<noteq> CHR 0x22" "c \<noteq> CHR ''{''" "c = CHR ''[''"
    | (atom) "c \<noteq> CHR 0x22" "c \<noteq> CHR ''{''" "c \<noteq> CHR ''[''"
    by blast
  then show ?thesis
  proof cases
    case str
    then show ?thesis
      using Cons by (auto split: sum.splits dest: scanstring_error)
  next
    case obj
    show ?thesis
    proof (cases "skip_ws cs")
      case Nil
      then show ?thesis using Cons obj by simp
    next
      case w: (Cons c' r')
      have "length (c' # r') \<le> length cs" using skip_ws_length [of cs] w by simp
      then have "2 * length (c' # r') + 3 \<le> n" using f Cons by simp
      from b [OF this] show ?thesis using Cons obj w by simp
    qed
  next
    case arr
    show ?thesis
    proof (cases "skip_ws cs")
      case Nil
      then show ?thesis using Cons arr by simp
    next
      case w: (Cons c' r')
      have "length (c' # r') \<le> length cs" using skip_ws_length [of cs] w by simp
      then have "2 * length (c' # r') + 3 \<le> n" using f Cons by simp
      from a [OF this] show ?thesis using Cons arr w by simp
    qed
  next
    case atom
    show ?thesis
      using atom scan_number_error [of s RecursionError]
      unfolding Cons [symmetric]
      by (cases s) (auto simp: Cons split: option.splits sum.splits)
  qed
qed

lemma fuel_step_array:
  assumes o: "\<And>s. 2 * length s + 2 \<le> n \<Longrightarrow> scan_once n s \<noteq> Inl RecursionError"
    and a: "\<And>vs s. 2 * length s + 3 \<le> n \<Longrightarrow> scan_array n vs s \<noteq> Inl RecursionError"
    and b: "\<And>kvs s. 2 * length s + 3 \<le> n \<Longrightarrow> scan_object n kvs s \<noteq> Inl RecursionError"
    and f: "2 * length s + 3 \<le> Suc n"
  shows "scan_array (Suc n) vs s \<noteq> Inl RecursionError"
proof (cases "scan_once n s")
  case (Inl e)
  have "2 * length s + 2 \<le> n" using f by simp
  from o [OF this] Inl show ?thesis by simp
next
  case (Inr p)
  obtain v1 r1 where p: "p = (v1, r1)" by (cases p)
  have m: "length r1 < length s" using scan_consumes(1) Inr p by blast
  show ?thesis
  proof (cases "skip_ws r1")
    case Nil
    then show ?thesis using Inr p by simp
  next
    case w: (Cons c r2)
    have "length r2 < length r1" by (rule skip_ws_Cons_length [OF w])
    then have "2 * length (skip_ws r2) + 3 \<le> n"
      using skip_ws_length [of r2] m f by simp
    from a [OF this] show ?thesis using Inr p w by simp
  qed
qed

lemma fuel_step_object:
  assumes o: "\<And>s. 2 * length s + 2 \<le> n \<Longrightarrow> scan_once n s \<noteq> Inl RecursionError"
    and a: "\<And>vs s. 2 * length s + 3 \<le> n \<Longrightarrow> scan_array n vs s \<noteq> Inl RecursionError"
    and b: "\<And>kvs s. 2 * length s + 3 \<le> n \<Longrightarrow> scan_object n kvs s \<noteq> Inl RecursionError"
    and f: "2 * length s + 3 \<le> Suc n"
  shows "scan_object (Suc n) kvs s \<noteq> Inl RecursionError"
proof (cases s)
  case Nil
  then show ?thesis by simp
next
  case (Cons q cs)
  show ?thesis
  proof (cases "scanstring [] cs")
    case (Inl e)
    then show ?thesis using Cons scanstring_error [OF Inl] by simp
  next
    case (Inr p)
    obtain k r0 where p: "p = (k, r0)" by (cases p)
    have l0: "length r0 < length cs" using scanstring_shorter Inr p by blast
    show ?thesis
    proof (cases "skip_ws r0")
      case Nil
      then show ?thesis using Cons Inr p by simp
    next
      case w1: (Cons c r1)
      have l1: "length r1 < length r0" by (rule skip_ws_Cons_length [OF w1])
      have g: "2 * length (skip_ws r1) + 2 \<le> n"
        using skip_ws_length [of r1] l0 l1 f Cons by simp
      show ?thesis
      proof (cases "scan_once n (skip_ws r1)")
        case e: (Inl e)
        from o [OF g] e show ?thesis using Cons Inr p w1 by simp
      next
        case v: (Inr p2)
        obtain v1 r2 where p2: "p2 = (v1, r2)" by (cases p2)
        have l2: "length r2 < length (skip_ws r1)" using scan_consumes(1) v p2 by blast
        show ?thesis
        proof (cases "skip_ws r2")
          case Nil
          then show ?thesis using Cons Inr p w1 v p2 by simp
        next
          case w2: (Cons c' r3)
          have "length r3 < length r2" by (rule skip_ws_Cons_length [OF w2])
          then have "2 * length (skip_ws r3) + 3 \<le> n"
            using skip_ws_length [of r3] skip_ws_length [of r1] l0 l1 l2 f Cons by simp
          from b [OF this] show ?thesis using Cons Inr p w1 v p2 w2 by simp
        qed
      qed
    qed
  qed
qed

lemma fuel_suffices:
  "(\<forall>s. 2 * length s + 2 \<le> n \<longrightarrow> scan_once n s \<noteq> Inl RecursionError)
   \<and> (\<forall>vs s. 2 * length s + 3 \<le> n \<longrightarrow> scan_array n vs s \<noteq> Inl RecursionError)
   \<and> (\<forall>kvs s. 2 * length s + 3 \<le> n \<longrightarrow> scan_object n kvs s \<noteq> Inl RecursionError)"
proof (induction n)
  case 0
  show ?case by simp
next
  case (Suc n)
  note o = Suc [THEN conjunct1, rule_format]
  note a = Suc [THEN conjunct2, THEN conjunct1, rule_format]
  note b = Suc [THEN conjunct2, THEN conjunct2, rule_format]
  show ?case
  proof (intro conjI allI impI)
    fix s :: string assume f: "2 * length s + 2 \<le> Suc n"
    show "scan_once (Suc n) s \<noteq> Inl RecursionError"
      by (rule fuel_step_once [OF _ _ _ f]) (rule o a b, assumption)+
  next
    fix vs and s :: string assume f: "2 * length s + 3 \<le> Suc n"
    show "scan_array (Suc n) vs s \<noteq> Inl RecursionError"
      by (rule fuel_step_array [OF _ _ _ f]) (rule o a b, assumption)+
  next
    fix kvs and s :: string assume f: "2 * length s + 3 \<le> Suc n"
    show "scan_object (Suc n) kvs s \<noteq> Inl RecursionError"
      by (rule fuel_step_object [OF _ _ _ f]) (rule o a b, assumption)+
  qed
qed

lemma json_loads_no_recursion_error: "json_loads s \<noteq> Inl RecursionError"
proof -
  have "2 * length (skip_ws s) + 2 \<le> 2 * length s + 2"
    using skip_ws_length [of s] by simp
  then have ne: "scan_once (2 * length s + 2) (skip_ws s) \<noteq> Inl RecursionError"
    by (rule fuel_suffices [THEN conjunct1, rule_format])
  define res where "res = scan_once (2 * length s + 2) (skip_ws s)"
  have "json_loads s =
          (if starts_with [CHR 0xEF, CHR 0xBB, CHR 0xBF] s then Inl JSONDecodeError
           else case res of
                  Inl e \<Rightarrow> Inl e
                | Inr (v, r) \<Rightarrow> if skip_ws r = [] then Inr v else Inl JSONDecodeError)"
    by (simp only: json_loads_def res_def)
  then show ?thesis
    using ne [folded res_def] by (cases res) (auto split: if_splits)
qed

section \<open>The response parser\<close>

lemma takeWhile_until: "c \<notin> set xs \<Longrightarrow> takeWhile (\<lambda>x. x \<noteq> c) (xs @ c # ys) = xs"
  by (induction xs) auto

lemma json_substring_delimited:
  assumes "CHR ''{'' \<notin> set pre" and "CHR ''}'' \<notin> set post"
  shows "json_substring (pre @ CHR ''{'' # mid @ CHR ''}'' # post) = Some (CHR ''{'' # mid @ [CHR ''}''])"
proof -
  let ?s = "pre @ CHR ''{'' # mid @ CHR ''}'' # post"
  have f: "py_find ?s CHR ''{'' = int (length pre)"
    using assms(1) by (simp add: py_find_def takeWhile_until)
  have "rev ?s = rev post @ CHR ''}'' # (rev mid @ CHR ''{'' # rev pre)" by simp
  then have "takeWhile (\<lambda>x. x \<noteq> CHR ''}'') (rev ?s) = rev post"
    using assms(2) by (simp add: takeWhile_until del: rev_append rev.simps)
  then have r: "py_rfind ?s CHR ''}'' = int (length pre) + 1 + int (length mid)"
    by (simp add: py_rfind_def)
  have n: "nat (2 + (int (length pre) + int (length mid))) - length pre = Suc (Suc (length mid))"
    by arith
  have "py_slice ?s (int (length pre)) (int (length pre) + 1 + int (length mid) + 1)
        = take (length mid + 2) (drop (length pre) ?s)"
    unfolding py_slice_def clamp_index_def Let_def
    by (simp add: min_def n)
  also have "\<dots> = CHR ''{'' # mid @ [CHR ''}'']" by simp
  finally show ?thesis
    unfolding json_substring_def f r by (simp add: Let_def)
qed

lemma json_substring_None:
  "CHR ''{'' \<notin> set s \<or> CHR ''}'' \<notin> set s \<Longrightarrow> json_substring s = None"
  by (auto simp: json_substring_def py_find_def py_rfind_def Let_def)


lemmas json_eval = json_loads_def starts_with_def skip_ws_def is_ws_def scan_number_def split_sign_def
  scan_escape_def decode_u4_def
  split_integer_def split_frac_def split_exp_def is_digit_def int_of_digits_def max_str_digits_def
  dict_of_pairs_def unescape_def hex4_def hex_value_def utf8_def

lemmas scan_numeral =
  scan_once.simps(2) [of "pred_numeral k" for k, folded numeral_eq_Suc]
  scan_array.simps(2) [of "pred_numeral k" for k, folded numeral_eq_Suc]
  scan_object.simps(2) [of "pred_numeral k" for k, folded numeral_eq_Suc]

lemma loads_hello:
  "json_loads ''{\"text\":\"Hello\",\"table\":[[\"A\",\"B\"],[\"1\",\"2\"]]}'' =
     Inr (PDict [(''text'', PStr ''Hello''),
                 (''table'', PList [PList [PStr ''A'', PStr ''B''], PList [PStr ''1'', PStr ''2'']])])"
  by (simp add: json_eval scan_numeral)


lemma long_int_nonempty: "reply_long_int \<noteq> []"
  by (simp add: reply_long_int_def)

lemma digits_run:
  "takeWhile is_digit (replicate k CHR ''1'' @ CHR ''}'' # r) = replicate k CHR ''1''"
  "dropWhile is_digit (replicate k CHR ''1'' @ CHR ''}'' # r) = CHR ''}'' # r"
  by (induction k) (simp_all add: is_digit_def)

lemma scan_number_long:
  assumes "max_str_digits < k"
  shows "scan_number (replicate k CHR ''1'' @ ''}'') = Some (Inl ValueError)"
proof -
  from assms obtain j where k: "k = Suc j" by (cases k) auto
  have d: "is_digit CHR ''1''" by (simp add: is_digit_def)
  have i: "split_integer (replicate k CHR ''1'' @ ''}'') = Some (replicate k CHR ''1'', ''}'')"
    using digits_run [of k "[]"] d by (simp add: split_integer_def k)
  have s: "split_sign (replicate k CHR ''1'' @ ''}'') = (False, replicate k CHR ''1'' @ ''}'')"
    by (simp add: split_sign_def k)
  show ?thesis
    using assms by (simp add: scan_number_def s i split_frac_def split_exp_def)
qed

lemma scan_open_object:
  "scan_once (Suc m) (CHR ''{'' # CHR 0x22 # R) = scan_object m [] (CHR 0x22 # R)"
  by (simp add: skip_ws_def is_ws_def)

lemma scan_text_member:
  "scan_once m (skip_ws D) = Inl e \<Longrightarrow>
   scan_object (Suc m) [] (CHR 0x22 # ''text\": '' @ D) = Inl e"
  by (simp add: skip_ws_def is_ws_def)

lemma scan_once_long:
  assumes "max_str_digits < k"
  shows "scan_once (Suc (Suc (Suc n))) (''{\"text\": '' @ replicate k CHR ''1'' @ ''}'') = Inl ValueError"
proof -
  from assms obtain j where k: "k = Suc j" by (cases k) auto
  let ?D = "replicate k CHR ''1'' @ ''}''"
  have w: "skip_ws ?D = ?D"
    by (simp add: skip_ws_def is_ws_def k)
  have "scan_once (Suc n) ?D = Inl ValueError"
    using scan_number_long [OF assms]
    by (simp add: k starts_with_def)
  then have v: "scan_once (Suc n) (skip_ws ?D) = Inl ValueError"
    by (simp only: w)
  have "scan_once (Suc (Suc (Suc n))) (CHR ''{'' # CHR 0x22 # ''text\": '' @ ?D) =
          scan_object (Suc (Suc n)) [] (CHR 0x22 # ''text\": '' @ ?D)"
    by (rule scan_open_object)
  also have "\<dots> = Inl ValueError"
    by (rule scan_text_member [OF v])
  finally show ?thesis by simp
qed

lemma loads_long_int: "json_loads reply_long_int = Inl ValueError"
proof -
  have f: "2 * length reply_long_int + 2 = Suc (Suc (Suc (2 * length reply_long_int - 1)))"
    by (simp add: reply_long_int_def)
  have b: "\<not> starts_with [CHR 0xEF, CHR 0xBB, CHR 0xBF] reply_long_int"
    by (simp add: starts_with_def reply_long_int_def)
  have w: "skip_ws reply_long_int = reply_long_int"
    by (simp add: skip_ws_def is_ws_def reply_long_int_def)
  have "scan_once (2 * length reply_long_int + 2) reply_long_int = Inl ValueError"
    unfolding f unfolding reply_long_int_def
    by (rule scan_once_long) (simp add: max_str_digits_def)
  then show ?thesis by (simp add: json_loads_def b w)
qed

lemma substring_long_int: "json_substring reply_long_int = Some reply_long_int"
  unfolding reply_long_int_def
  using json_substring_delimited [of "[]" "[]" "''\"text\": '' @ replicate 4301 CHR ''1''"]
  by simp

lemma parse_long_int: "parse_response json_loads reply_long_int = Inl ValueError"
  by (simp add: parse_response_def substring_long_int loads_long_int)

lemma loads_short_int: "json_loads reply_short_int = Inr (PDict [(''text'', PInt 111)])"
  by (simp add: reply_short_int_def json_eval scan_numeral)


text \<open>
  Claim C1, as stated, fails. The reply below is a well-formed JSON object, and it is its
  own substring from the first \<open>{\<close> to the last \<open>}\<close>: it has one member, named
  \<^verbatim>\<open>text\<close>, whose value is a number written with 4301 digits. The grammar of JSON puts no
  bound on the digits of a number, and the same object with a number of three digits is
  decoded. On the long one the decoder raises \<^verbatim>\<open>ValueError\<close>, CPython's limit of 4300
  digits on the conversion of a string to an \<^verbatim>\<open>int\<close>. The parsing step then returns no
  fields: the exception leaves it, and on the image path it leaves the dispatcher.
\<close>

theorem response_parser_long_integer_counterexample:
  "json_substring reply_long_int = Some reply_long_int
   \<and> json_loads reply_short_int = Inr (PDict [(''text'', PInt 111)])
   \<and> json_loads reply_long_int = Inl ValueError
   \<and> parse_response json_loads reply_long_int = Inl ValueError
   \<and> extract_image json_loads (Inr reply_long_int) = Inl (ValueError, [ModelCall])"
proof -
  have "extract_image json_loads (Inr reply_long_int) = Inl (ValueError, [ModelCall])"
    by (simp add: extract_image_def get_gemini_response_def long_int_nonempty substring_long_int
          loads_long_int)
  then show ?thesis
    using substring_long_int loads_short_int loads_long_int parse_long_int by simp
qed

text \<open>
  Claim C1, amended. Let the reply consist of some text without \<open>{\<close>, then a substring
  that starts with \<open>{\<close> and ends with \<open>}\<close>, then some text without \<open>}\<close>, so that the
  substring is the one delimited by the first \<open>{\<close> and the last \<open>}\<close>; and let the
  decoder return an object for that substring. Then the parsing step of the PDF and DOCX
  extractors yields the object's \<^verbatim>\<open>text\<close> field, the empty string if the key is absent,
  and its \<^verbatim>\<open>table\<close> field, the empty list if the key is absent. On the image path the
  text of the result is the same \<^verbatim>\<open>text\<close> value, and the table list is empty if the
  \<^verbatim>\<open>table\<close> key is absent or its value is falsy, and otherwise holds that value, unchanged,
  as the data of the single entry.
\<close>

theorem response_parser_fields:
  assumes "CHR ''{'' \<notin> set pre" and "CHR ''}'' \<notin> set post"
    and "loads (CHR ''{'' # mid @ [CHR ''}'']) = Inr (PDict kvs)"
  shows "parse_response loads (pre @ CHR ''{'' # mid @ CHR ''}'' # post) =
           Inr (Some (case map_of kvs ''text'' of None \<Rightarrow> PStr [] | Some v \<Rightarrow> v,
                      case map_of kvs ''table'' of None \<Rightarrow> PList [] | Some v \<Rightarrow> v))
       \<and> extract_image loads (Inr (pre @ CHR ''{'' # mid @ CHR ''}'' # post)) =
           Inr (\<lparr>text_result = (case map_of kvs ''text'' of None \<Rightarrow> PStr [] | Some v \<Rightarrow> v),
                 table_result =
                   (case map_of kvs ''table'' of
                      None \<Rightarrow> []
                    | Some v \<Rightarrow> if truthy v then [\<lparr>title = ''Table from Image'', data = v\<rparr>] else [])\<rparr>,
                [ModelCall])"
  using assms
  by (simp add: parse_response_def extract_image_def get_gemini_response_def
        json_substring_delimited split: option.splits)


theorem response_parser_fields_witness:
  "CHR ''{'' \<notin> set ''Here: '' \<and> CHR ''}'' \<notin> set '' thanks''
   \<and> json_loads ''{\"text\":\"Hello\",\"table\":[[\"A\",\"B\"],[\"1\",\"2\"]]}'' =
       Inr (PDict [(''text'', PStr ''Hello''),
                   (''table'', PList [PList [PStr ''A'', PStr ''B''], PList [PStr ''1'', PStr ''2'']])])
   \<and> parse_response json_loads
         ''Here: {\"text\":\"Hello\",\"table\":[[\"A\",\"B\"],[\"1\",\"2\"]]} thanks'' =
       Inr (Some (PStr ''Hello'', PList [PList [PStr ''A'', PStr ''B''], PList [PStr ''1'', PStr ''2'']]))
   \<and> extract_image json_loads
         (Inr ''Here: {\"text\":\"Hello\",\"table\":[[\"A\",\"B\"],[\"1\",\"2\"]]} thanks'') =
       Inr (\<lparr>text_result = PStr ''Hello'',
             table_result =
               [\<lparr>title = ''Table from Image'',
                 data = PList [PList [PStr ''A'', PStr ''B''], PList [PStr ''1'', PStr ''2'']]\<rparr>]\<rparr>,
            [ModelCall])"
  using response_parser_fields [of "''Here: ''" "'' thanks''" json_loads
          "''\"text\":\"Hello\",\"table\":[[\"A\",\"B\"],[\"1\",\"2\"]]''"
          "[(''text'', PStr ''Hello''),
            (''table'', PList [PList [PStr ''A'', PStr ''B''], PList [PStr ''1'', PStr ''2'']])]"]
        loads_hello
  by simp


text \<open>
  Claim C4. If the reply contains no \<open>{\<close> or contains no \<open>}\<close>, the parsing step
  extracts nothing and raises nothing, whatever the decoder is: the image path returns the
  empty text and the empty table list, and a PDF page or an embedded image leaves the
  aggregates as they were. The only thing reported is the model call itself.
\<close>

theorem no_braces_nothing_extracted:
  assumes "CHR ''{'' \<notin> set s \<or> CHR ''}'' \<notin> set s"
  shows "parse_response loads s = Inr None
       \<and> extract_image loads (Inr s) = Inr (\<lparr>text_result = PStr [], table_result = []\<rparr>, [ModelCall])
       \<and> pdf_page loads st (n, Inr s) = Inr (st\<lparr>pdf_log := pdf_log st @ [ModelCall]\<rparr>)
       \<and> docx_image loads dst (n, Bitmap (Inr s)) = dst\<lparr>docx_log := docx_log dst @ [ModelCall]\<rparr>"
  using json_substring_None [OF assms]
  by (simp add: parse_response_def extract_image_def extraction_init_def pdf_page_def docx_image_def
        get_gemini_response_def)

theorem no_braces_nothing_extracted_witness:
  "CHR ''{'' \<notin> set ''No table on this page.''
   \<and> parse_response json_loads ''No table on this page.'' = Inr None
   \<and> extract_image json_loads (Inr ''No table on this page.'') =
       Inr (\<lparr>text_result = PStr [], table_result = []\<rparr>, [ModelCall])
   \<and> pdf_page json_loads pdf_init (0, Inr ''No table on this page.'') =
       Inr (pdf_init\<lparr>pdf_log := pdf_log pdf_init @ [ModelCall]\<rparr>)
   \<and> docx_image json_loads (docx_init \<lparr>paragraphs = [], doc_tables = [], rels = []\<rparr>)
         (0, Bitmap (Inr ''No table on this page.'')) =
       (docx_init \<lparr>paragraphs = [], doc_tables = [], rels = []\<rparr>)
         \<lparr>docx_log := docx_log (docx_init \<lparr>paragraphs = [], doc_tables = [], rels = []\<rparr>) @ [ModelCall]\<rparr>"
  using no_braces_nothing_extracted [of "''No table on this page.''" json_loads pdf_init 0
          "docx_init \<lparr>paragraphs = [], doc_tables = [], rels = []\<rparr>"]
  by simp

section \<open>The image path of the dispatcher\<close>








section \<open>The PDF aggregate\<close>

lemma pdf_page_valid:
  assumes "page_fields loads r = Some p"
  shows "pdf_page loads st (i, r) = Inr (pdf_add i p (st\<lparr>pdf_log := pdf_log st @ [ModelCall]\<rparr>))"
  using assms
  by (auto simp: page_fields_def pdf_page_def get_gemini_response_def
           split: sum.splits if_splits option.splits)

lemma pdf_add_text:
  "aggregated_text (pdf_add i p st) =
     aggregated_text st @ (if truthy (fst p) then page_section i (fst p) else [])"
  by (simp add: pdf_add_def Let_def)

lemma pdf_add_tables:
  "aggregated_tables (pdf_add i p st) =
     aggregated_tables st @ (if truthy (snd p) then [page_table_entry i (snd p)] else [])"
  by (simp add: pdf_add_def Let_def)

lemma pdf_add_log: "pdf_log (pdf_add i p st) = pdf_log st"
  by (simp add: pdf_add_def Let_def)

lemma pdf_loop_valid:
  assumes "\<forall>u \<in> set us. page_fields loads (snd u) \<noteq> None"
  shows "\<exists>st'. pdf_loop loads st us = Inr st'
     \<and> aggregated_text st' =
         aggregated_text st @
         concat (map (\<lambda>u. page_section (fst u) (text_of loads (snd u))) (text_pages loads us))
     \<and> aggregated_tables st' =
         aggregated_tables st @
         map (\<lambda>u. page_table_entry (fst u) (table_of loads (snd u))) (table_pages loads us)
     \<and> pdf_log st' = pdf_log st @ replicate (length us) ModelCall"
  using assms
proof (induction us arbitrary: st)
  case Nil
  then show ?case by (simp add: text_pages_def table_pages_def)
next
  case (Cons u us)
  obtain i r where u: "u = (i, r)" by (cases u)
  from Cons.prems u obtain p where p: "page_fields loads r = Some p" by auto
  let ?st1 = "pdf_add i p (st\<lparr>pdf_log := pdf_log st @ [ModelCall]\<rparr>)"
  have step: "pdf_page loads st u = Inr ?st1"
    unfolding u by (rule pdf_page_valid [OF p])
  from Cons.prems have "\<forall>u \<in> set us. page_fields loads (snd u) \<noteq> None" by simp
  from Cons.IH [OF this, of ?st1] obtain st' where
    l: "pdf_loop loads ?st1 us = Inr st'"
    and t: "aggregated_text st' =
         aggregated_text ?st1 @
         concat (map (\<lambda>u. page_section (fst u) (text_of loads (snd u))) (text_pages loads us))"
    and b: "aggregated_tables st' =
         aggregated_tables ?st1 @
         map (\<lambda>u. page_table_entry (fst u) (table_of loads (snd u))) (table_pages loads us)"
    and g: "pdf_log st' = pdf_log ?st1 @ replicate (length us) ModelCall"
    by blast
  have "pdf_loop loads st (u # us) = Inr st'"
    using step l by simp
  moreover have "aggregated_text st' =
         aggregated_text st @
         concat (map (\<lambda>u. page_section (fst u) (text_of loads (snd u))) (text_pages loads (u # us)))"
    using t p by (simp add: pdf_add_text text_pages_def text_of_def u)
  moreover have "aggregated_tables st' =
         aggregated_tables st @
         map (\<lambda>u. page_table_entry (fst u) (table_of loads (snd u))) (table_pages loads (u # us))"
    using b p by (simp add: pdf_add_tables table_pages_def table_of_def u)
  moreover have "pdf_log st' = pdf_log st @ replicate (length (u # us)) ModelCall"
    using g by (simp add: pdf_add_log replicate_append_same)
  ultimately show ?case by blast
qed


lemma parse_text_only:
  "parse_response json_loads reply_text_only = Inr (Some (PStr ''Hello'', PList []))"
proof -
  have s: "json_substring reply_text_only = Some ''{\"text\":\"Hello\"}''"
    unfolding reply_text_only_def
    using json_substring_delimited [of "[]" "[]" "''\"text\":\"Hello\"''"] by simp
  have l: "json_loads ''{\"text\":\"Hello\"}'' = Inr (PDict [(''text'', PStr ''Hello'')])"
    by (simp add: json_eval scan_numeral)
  show ?thesis by (simp add: parse_response_def s l)
qed

lemma parse_table_only:
  "parse_response json_loads reply_table_only = Inr (Some (PStr [], grid_ab))"
proof -
  have s: "json_substring reply_table_only = Some ''{\"text\":\"\",\"table\":[[\"A\",\"B\"],[\"1\",\"2\"]]}''"
    unfolding reply_table_only_def
    using json_substring_delimited [of "''Sure. ''" "[]" "''\"text\":\"\",\"table\":[[\"A\",\"B\"],[\"1\",\"2\"]]''"]
    by simp
  have l: "json_loads ''{\"text\":\"\",\"table\":[[\"A\",\"B\"],[\"1\",\"2\"]]}'' =
             Inr (PDict [(''text'', PStr []), (''table'', grid_ab)])"
    by (simp add: json_eval scan_numeral grid_ab_def)
  show ?thesis by (simp add: parse_response_def s l)
qed

lemma fields_text_only: "page_fields json_loads (Inr reply_text_only) = Some (PStr ''Hello'', PList [])"
  by (simp add: page_fields_def parse_text_only) (simp add: reply_text_only_def)

lemma fields_table_only: "page_fields json_loads (Inr reply_table_only) = Some (PStr [], grid_ab)"
  by (simp add: page_fields_def parse_table_only) (simp add: reply_table_only_def)

lemma str_nat_small: "n < 10 \<Longrightarrow> str_nat n = [''0123456789'' ! n]"
  by (simp add: str_nat.simps digit_char_def)


text \<open>
  Claim C2, as stated, fails: a page whose reply is valid JSON with an empty \<^verbatim>\<open>text\<close>
  gets no section. The PDF below has one page; its reply decodes to an object with the
  empty text and a table of two rows. The aggregate text is empty, so it holds no section
  for page 1, while the table of the page is there.
\<close>

theorem pdf_sections_counterexample:
  "page_fields json_loads (Inr reply_table_only) = Some (PStr [], grid_ab)
   \<and> extract_data_from_pdf json_loads [Inr reply_table_only] =
       Inr \<lparr>aggregated_text = [],
            aggregated_tables = [\<lparr>title = ''Table from Page 1'', data = grid_ab\<rparr>],
            pdf_log = [ModelCall]\<rparr>"
  by (simp add: fields_table_only extract_data_from_pdf_def pdf_init_def
        pdf_page_valid [OF fields_table_only] pdf_add_def page_table_entry_def str_nat_small grid_ab_def)


text \<open>
  Claim C2, amended. If every page of the PDF has fields (its model call returned a
  non-empty reply that decoded to an object), then the extractor returns, and
  \<^item> the aggregate text is, in page order, one section
    \<^verbatim>\<open>\n\n--- Page i ---\n\<close> followed by the text, for each page whose text is truthy,
    \<open>i\<close> being the page's 1-based number; a page with an empty or absent text has no
    section;
  \<^item> the aggregate table list is, in page order, one entry titled
    \<^verbatim>\<open>Table from Page i\<close> for each page whose table is truthy, with that table as data;
  \<^item> the model was called once per page and nothing else was reported.
\<close>

theorem pdf_aggregate_valid_pages:
  assumes "\<forall>r \<in> set pages. page_fields loads r \<noteq> None"
  shows "\<exists>st. extract_data_from_pdf loads pages = Inr st
     \<and> aggregated_text st =
         concat (map (\<lambda>u. page_section (fst u) (text_of loads (snd u)))
                   (text_pages loads (enumerate 0 pages)))
     \<and> aggregated_tables st =
         map (\<lambda>u. page_table_entry (fst u) (table_of loads (snd u)))
           (table_pages loads (enumerate 0 pages))
     \<and> pdf_log st = replicate (length pages) ModelCall"
proof -
  have "\<forall>u \<in> set (enumerate 0 pages). page_fields loads (snd u) \<noteq> None"
    using assms by (auto simp: in_set_enumerate_eq)
  from pdf_loop_valid [OF this, of pdf_init] show ?thesis
    by (simp add: extract_data_from_pdf_def pdf_init_def)
qed

theorem pdf_aggregate_valid_pages_witness:
  "page_fields json_loads (Inr reply_text_only) = Some (PStr ''Hello'', PList [])
   \<and> page_fields json_loads (Inr reply_table_only) = Some (PStr [], grid_ab)
   \<and> extract_data_from_pdf json_loads [Inr reply_text_only, Inr reply_table_only] =
       Inr \<lparr>aggregated_text = [NL, NL] @ ''--- Page 1 ---'' @ [NL] @ ''Hello'',
            aggregated_tables = [\<lparr>title = ''Table from Page 2'', data = grid_ab\<rparr>],
            pdf_log = [ModelCall, ModelCall]\<rparr>"
proof -
  have v: "\<forall>r \<in> set [Inr reply_text_only, Inr reply_table_only]. page_fields json_loads r \<noteq> None"
    by (simp add: fields_text_only fields_table_only)
  from pdf_aggregate_valid_pages [OF v] obtain st where
    e: "extract_data_from_pdf json_loads [Inr reply_text_only, Inr reply_table_only] = Inr st"
    and t: "aggregated_text st =
         concat (map (\<lambda>u. page_section (fst u) (text_of json_loads (snd u)))
                   (text_pages json_loads (enumerate 0 [Inr reply_text_only, Inr reply_table_only])))"
    and b: "aggregated_tables st =
         map (\<lambda>u. page_table_entry (fst u) (table_of json_loads (snd u)))
           (table_pages json_loads (enumerate 0 [Inr reply_text_only, Inr reply_table_only]))"
    and g: "pdf_log st = replicate (length [Inr reply_text_only, Inr reply_table_only :: reply]) ModelCall"
    by blast
  have t': "aggregated_text st = [NL, NL] @ ''--- Page 1 ---'' @ [NL] @ ''Hello''"
    using t by (simp add: text_pages_def text_of_def fields_text_only fields_table_only
                  page_section_def str_nat_small)
  have b': "aggregated_tables st = [\<lparr>title = ''Table from Page 2'', data = grid_ab\<rparr>]"
    using b by (simp add: table_pages_def table_of_def fields_text_only fields_table_only
                  page_table_entry_def str_nat_small grid_ab_def)
  have g': "pdf_log st = [ModelCall, ModelCall]"
    using g by (simp add: numeral_2_eq_2)
  have "st = \<lparr>aggregated_text = [NL, NL] @ ''--- Page 1 ---'' @ [NL] @ ''Hello'',
            aggregated_tables = [\<lparr>title = ''Table from Page 2'', data = grid_ab\<rparr>],
            pdf_log = [ModelCall, ModelCall]\<rparr>"
    using t' b' g' by (cases st) simp
  then show ?thesis using e fields_text_only fields_table_only by simp
qed

section \<open>The DOCX table list\<close>

lemma docx_add_tables:
  "all_tables_data (docx_add i p st) =
     all_tables_data st @ (if truthy (snd p) then [image_table_entry i (snd p)] else [])"
  by (simp add: docx_add_def Let_def)

lemma docx_image_tables:
  "all_tables_data (docx_image loads st u) =
     all_tables_data st @
     (if truthy (part_table loads (snd u))
      then [image_table_entry (fst u) (part_table loads (snd u))] else [])"
  by (cases u)
     (auto simp: docx_image_def part_table_def table_of_def page_fields_def get_gemini_response_def
           docx_add_tables Let_def
           split: image_part.splits sum.splits option.splits if_splits)

lemma docx_loop_tables:
  "all_tables_data (docx_loop loads st us) =
     all_tables_data st @
     map (\<lambda>u. image_table_entry (fst u) (part_table loads (snd u))) (table_parts loads us)"
  unfolding docx_loop_def
  by (induction us arbitrary: st) (simp_all add: table_parts_def docx_image_tables)

lemma native_titles:
  "map title (map native_table_entry (enumerate k ts)) =
     map (\<lambda>i. ''Native Table '' @ str_nat (i + 1)) [k..<k + length ts]"
  by (induction ts arbitrary: k) (simp_all add: native_table_entry_def upt_rec)


lemma target_parts_external:
  "ExternalRel url \<in> set rs \<Longrightarrow> contains ''image'' url \<Longrightarrow> target_parts rs = Inl ValueError"
proof (induction rs)
  case Nil
  then show ?case by simp
next
  case (Cons r rs)
  show ?case
  proof (cases "r = ExternalRel url")
    case True
    then show ?thesis using Cons.prems(2) by simp
  next
    case False
    then have "target_parts rs = Inl ValueError"
      using Cons.IH Cons.prems by simp
    then show ?thesis by (cases r) simp_all
  qed
qed

lemma target_parts_internal:
  "\<forall>r \<in> set rs. contains ''image'' (target_ref r) \<longrightarrow> target_part r \<noteq> Inl ValueError \<Longrightarrow>
   \<exists>parts. target_parts rs = Inr parts"
proof (induction rs)
  case Nil
  then show ?case by simp
next
  case (Cons r rs)
  then obtain parts where "target_parts rs = Inr parts" by auto
  then show ?case using Cons.prems by (cases r) simp_all
qed

text \<open>
  When the function returns, its table list is the list of the native tables followed by
  the list of the tables of the embedded images. The native part has one entry per table
  of the document, in document order, titled \<^verbatim>\<open>Native Table 1\<close>, \<^verbatim>\<open>Native Table 2\<close>, and
  so on. The embedded part has one entry, titled \<^verbatim>\<open>Table from Embedded Image i\<close>, for each
  image part whose table is truthy, \<open>i\<close> being the 1-based position of the part among
  the image parts; the positions increase along the list, so there are at most as many
  entries as image parts.
\<close>

lemma docx_tables_returned:
  assumes "extract_data_from_docx loads doc = Inr (out, tbls, lg)"
  shows "\<exists>parts. image_parts doc = Inr parts
       \<and> tbls =
           map native_table_entry (enumerate 0 (doc_tables doc)) @
           map (\<lambda>u. image_table_entry (fst u) (part_table loads (snd u)))
             (table_parts loads (enumerate 0 parts))
       \<and> map title (map native_table_entry (enumerate 0 (doc_tables doc))) =
           map (\<lambda>i. ''Native Table '' @ str_nat (i + 1)) [0..<length (doc_tables doc)]
       \<and> map title (map (\<lambda>u. image_table_entry (fst u) (part_table loads (snd u)))
                      (table_parts loads (enumerate 0 parts))) =
           map (\<lambda>i. ''Table from Embedded Image '' @ str_nat (i + 1))
             (map fst (table_parts loads (enumerate 0 parts)))
       \<and> sorted_wrt (<) (map fst (table_parts loads (enumerate 0 parts)))
       \<and> set (map fst (table_parts loads (enumerate 0 parts))) \<subseteq> {0..<length parts}
       \<and> length (table_parts loads (enumerate 0 parts)) \<le> length parts"
proof -
  from assms obtain parts where p: "image_parts doc = Inr parts"
    by (auto simp: extract_data_from_docx_def split: sum.splits)
  have a: "tbls =
     map native_table_entry (enumerate 0 (doc_tables doc)) @
     map (\<lambda>u. image_table_entry (fst u) (part_table loads (snd u)))
       (table_parts loads (enumerate 0 parts))"
    using assms by (simp add: extract_data_from_docx_def p Let_def docx_loop_tables docx_init_def)
  have b: "map title (map native_table_entry (enumerate 0 (doc_tables doc))) =
       map (\<lambda>i. ''Native Table '' @ str_nat (i + 1)) [0..<length (doc_tables doc)]"
    using native_titles [of 0 "doc_tables doc"] by simp
  have c: "map title (map (\<lambda>u. image_table_entry (fst u) (part_table loads (snd u)))
                  (table_parts loads (enumerate 0 parts))) =
       map (\<lambda>i. ''Table from Embedded Image '' @ str_nat (i + 1))
         (map fst (table_parts loads (enumerate 0 parts)))"
    by (simp add: image_table_entry_def)
  have "sorted_wrt (<) (map fst (enumerate 0 parts))"
    by (simp add: map_fst_enumerate)
  then have d: "sorted_wrt (<) (map fst (table_parts loads (enumerate 0 parts)))"
    unfolding table_parts_def sorted_wrt_map by (rule sorted_wrt_filter)
  have e: "set (map fst (table_parts loads (enumerate 0 parts))) \<subseteq> {0..<length parts}"
    by (auto simp: table_parts_def in_set_enumerate_eq)
  have f: "length (table_parts loads (enumerate 0 parts)) \<le> length parts"
    unfolding table_parts_def
    using length_filter_le [of _ "enumerate 0 parts"] by simp
  show ?thesis using p a b c d e f by blast
qed

lemma parts_embedded_picture:
  "image_parts docx_embedded_picture =
     Inr [Bitmap (Inr reply_table_only), Undecodable (OtherException ''cannot identify image file'')]"
  by (simp add: image_parts_def docx_embedded_picture_def)

lemma tables_embedded_picture:
  "extract_data_from_docx json_loads docx_embedded_picture =
     Inr (''Intro'',
          [\<lparr>title = ''Native Table 1'', data = grid_ab\<rparr>,
           \<lparr>title = ''Table from Embedded Image 1'', data = grid_ab\<rparr>],
          [ModelCall, ImageWarning 2 (OtherException ''cannot identify image file'')])"
proof -
  have n: "reply_table_only \<noteq> []" by (simp add: reply_table_only_def)
  show ?thesis
    by (simp add: extract_data_from_docx_def parts_embedded_picture docx_loop_def docx_init_def
          docx_image_def get_gemini_response_def parse_table_only n docx_add_def
          native_table_entry_def image_table_entry_def str_nat_small)
       (simp add: docx_embedded_picture_def grid_ab_def native_table_entry_def image_table_entry_def
          str_nat_small)
qed

text \<open>
  Claim C5 does not hold for a document with a linked picture. The document below has one
  native table and two relationships whose target reference contains \<^verbatim>\<open>image\<close>: an
  embedded image and a picture that is linked, so that its relationship is external. At
  line 74 \<^verbatim>\<open>rel.target_part\<close> raises \<^verbatim>\<open>ValueError\<close> on the external relationship; the
  list of image parts is built outside the \<^verbatim>\<open>try\<close> of the loop, so the exception leaves
  \<^verbatim>\<open>extract_data_from_docx\<close> and the dispatcher: there is no table list, neither the
  native table nor the table of the embedded image, and no warning. With an embedded part
  that cannot be read as an image in place of the linked picture, the loop warns for that
  part and the table list is the native table followed by the table of image 1.
\<close>

theorem docx_linked_picture_aborts:
  "image_parts docx_linked_picture = Inl ValueError
   \<and> extract_data_from_docx json_loads docx_linked_picture = Inl (ValueError, [])
   \<and> main_extract json_loads docx_linked_upload = Inl (ValueError, [])
   \<and> extract_data_from_docx json_loads docx_embedded_picture =
       Inr (''Intro'',
            [\<lparr>title = ''Native Table 1'', data = grid_ab\<rparr>,
             \<lparr>title = ''Table from Embedded Image 1'', data = grid_ab\<rparr>],
            [ModelCall, ImageWarning 2 (OtherException ''cannot identify image file'')])"
proof -
  have p: "image_parts docx_linked_picture = Inl ValueError"
    by (simp add: image_parts_def docx_linked_picture_def)
  then have e: "extract_data_from_docx json_loads docx_linked_picture = Inl (ValueError, [])"
    by (simp add: extract_data_from_docx_def)
  then have m: "main_extract json_loads docx_linked_upload = Inl (ValueError, [])"
    by (simp add: main_extract_def docx_linked_upload_def)
  show ?thesis using p e m tables_embedded_picture by simp
qed

section \<open>Tables that come from the model\<close>

lemma pdf_page_truthy:
  assumes "pdf_page loads st u = Inr st'"
    and "\<forall>t \<in> set (aggregated_tables st). truthy (data t)"
  shows "\<forall>t \<in> set (aggregated_tables st'). truthy (data t)"
  using assms
  by (cases u)
     (auto simp: pdf_page_def get_gemini_response_def pdf_add_def page_table_entry_def Let_def
           split: sum.splits option.splits if_splits exn.splits)

lemma pdf_loop_truthy:
  assumes "pdf_loop loads st us = Inr st'"
    and "\<forall>t \<in> set (aggregated_tables st). truthy (data t)"
  shows "\<forall>t \<in> set (aggregated_tables st'). truthy (data t)"
  using assms
proof (induction us arbitrary: st)
  case Nil
  then show ?case by simp
next
  case (Cons u us)
  from Cons.prems(1) obtain st1 where s: "pdf_page loads st u = Inr st1"
    and l: "pdf_loop loads st1 us = Inr st'"
    by (auto split: sum.splits)
  from pdf_page_truthy [OF s Cons.prems(2)] Cons.IH [OF l] show ?case by blast
qed

lemma native_not_model: "\<not> starts_with ''Table from'' (title (native_table_entry u))"
  by (simp add: starts_with_def native_table_entry_def)


lemma docx_upload_result:
  "main_extract json_loads docx_upload =
     Inr (\<lparr>text_result = PStr ''Intro'',
           table_result =
             [\<lparr>title = ''Native Table 1'', data = PList []\<rparr>,
              \<lparr>title = ''Table from Embedded Image 1'', data = grid_ab\<rparr>]\<rparr>,
          [ModelCall])"
proof -
  have n: "reply_table_only \<noteq> []" by (simp add: reply_table_only_def)
  have i: "image_parts (docx_doc docx_upload) = Inr [Bitmap (Inr reply_table_only)]"
    by (simp add: docx_upload_def image_parts_def)
  show ?thesis
    by (simp add: main_extract_def extract_data_from_docx_def i docx_loop_def docx_init_def
          docx_image_def get_gemini_response_def parse_table_only n docx_add_def
          native_table_entry_def image_table_entry_def str_nat_small grid_ab_def)
       (simp add: docx_upload_def native_table_entry_def str_nat_small)
qed


text \<open>
  Claim C10. In every result that the dispatcher returns, on any of its paths, an entry
  whose title begins with \<^verbatim>\<open>Table from\<close> has truthy data: a list with at least one row
  when the model sent a list. Entries for native Word tables, whose titles begin with
  \<^verbatim>\<open>Native Table\<close>, are not constrained.
\<close>

theorem model_tables_nonempty:
  assumes "main_extract loads up = Inr (res, ev)"
  shows "\<forall>t \<in> set (table_result res). starts_with ''Table from'' (title t) \<longrightarrow> truthy (data t)"
proof -
  consider (img) "file_extension up \<in> set [''.jpg'', ''.jpeg'', ''.png'']"
    | (pdf) "file_extension up \<notin> set [''.jpg'', ''.jpeg'', ''.png'']" "file_extension up = ''.pdf''"
    | (docx) "file_extension up \<notin> set [''.jpg'', ''.jpeg'', ''.png'']" "file_extension up \<noteq> ''.pdf''"
        "file_extension up = ''.docx''"
    | (other) "file_extension up \<notin> set [''.jpg'', ''.jpeg'', ''.png'']" "file_extension up \<noteq> ''.pdf''"
        "file_extension up \<noteq> ''.docx''"
    by blast
  then show ?thesis
  proof cases
    case img
    then have "extract_image loads (image_reply up) = Inr (res, ev)"
      using assms by (simp add: main_extract_def)
    then show ?thesis
      by (cases "image_reply up")
         (auto simp: extract_image_def get_gemini_response_def extraction_init_def
               split: option.splits sum.splits if_splits exn.splits)
  next
    case pdf
    then obtain st where e: "extract_data_from_pdf loads (pdf_pages up) = Inr st"
      and r: "table_result res = aggregated_tables st"
      using assms by (auto simp: main_extract_def split: sum.splits)
    from e have "\<forall>t \<in> set (aggregated_tables st). truthy (data t)"
      unfolding extract_data_from_pdf_def
      by (rule pdf_loop_truthy) (simp add: pdf_init_def)
    then show ?thesis using r by simp
  next
    case docx
    then obtain out lg where
      "extract_data_from_docx loads (docx_doc up) = Inr (out, table_result res, lg)"
      using assms by (auto simp: main_extract_def split: sum.splits prod.splits)
    from docx_tables_returned [OF this] obtain parts where
      r: "table_result res =
            map native_table_entry (enumerate 0 (doc_tables (docx_doc up))) @
            map (\<lambda>u. image_table_entry (fst u) (part_table loads (snd u)))
              (table_parts loads (enumerate 0 parts))"
      by blast
    show ?thesis
      unfolding r
      by (auto simp: native_not_model image_table_entry_def table_parts_def)
  next
    case other
    then show ?thesis using assms by (auto simp: main_extract_def extraction_init_def)
  qed
qed

theorem model_tables_nonempty_witness:
  "main_extract json_loads docx_upload =
     Inr (\<lparr>text_result = PStr ''Intro'',
           table_result =
             [\<lparr>title = ''Native Table 1'', data = PList []\<rparr>,
              \<lparr>title = ''Table from Embedded Image 1'', data = grid_ab\<rparr>]\<rparr>,
          [ModelCall])
   \<and> starts_with ''Table from'' ''Table from Embedded Image 1''
   \<and> truthy grid_ab
   \<and> \<not> starts_with ''Table from'' ''Native Table 1''"
  using model_tables_nonempty [OF docx_upload_result] docx_upload_result
  by (simp add: starts_with_def)

section \<open>A unit that fails\<close>

text \<open>
  What one iteration of each loop does with a failure. In the PDF loop a failed model call
  is reported by \<^verbatim>\<open>get_gemini_response\<close> and the page is skipped; a
  \<^verbatim>\<open>JSONDecodeError\<close> from the decoder gives the page warning and leaves the aggregates as
  they were; any other exception from the parsing step leaves the function. In the DOCX
  loop every exception gives the image warning and leaves the aggregates as they were.
\<close>

lemma pdf_page_decode_error:
  assumes "t \<noteq> []" and "parse_response loads t = Inl JSONDecodeError"
  shows "pdf_page loads st (i, Inr t) =
           Inr (st\<lparr>pdf_log := pdf_log st @ [ModelCall, PageWarning (i + 1)]\<rparr>)"
  using assms by (simp add: pdf_page_def get_gemini_response_def)

lemma pdf_page_api_error:
  "pdf_page loads st (i, Inl e) = Inr (st\<lparr>pdf_log := pdf_log st @ [ModelCall, ApiError e]\<rparr>)"
  by (simp add: pdf_page_def get_gemini_response_def)

lemma pdf_page_other_error:
  assumes "t \<noteq> []" and "parse_response loads t = Inl e" and "e \<noteq> JSONDecodeError"
  shows "pdf_page loads st (i, Inr t) = Inl (e, pdf_log st @ [ModelCall])"
  using assms by (cases e) (simp_all add: pdf_page_def get_gemini_response_def)

lemma docx_image_error:
  assumes "t \<noteq> []" and "parse_response loads t = Inl e"
  shows "docx_image loads st (i, Bitmap (Inr t)) =
           st\<lparr>docx_log := docx_log st @ [ModelCall, ImageWarning (i + 1) e]\<rparr>"
  using assms by (simp add: docx_image_def get_gemini_response_def)

lemma docx_image_undecodable:
  "docx_image loads st (i, Undecodable e) = st\<lparr>docx_log := docx_log st @ [ImageWarning (i + 1) e]\<rparr>"
  by (simp add: docx_image_def)

lemma text_only_nonempty: "reply_text_only \<noteq> []"
  by (simp add: reply_text_only_def)


text \<open>
  Claim C3 does not hold for the PDF path. The first page of the PDF below is answered
  with a JSON object whose \<^verbatim>\<open>text\<close> is an integer of 4301 digits; the decoder raises
  \<^verbatim>\<open>ValueError\<close>, which is not a \<^verbatim>\<open>JSONDecodeError\<close>, and the exception leaves
  \<^verbatim>\<open>extract_data_from_pdf\<close>: there is no result, no warning, and the second page is never
  sent to the model. The same two replies as embedded images of a Word document give a
  warning for image 1 and the text of image 2.
\<close>

theorem pdf_aborts_where_docx_continues:
  "extract_data_from_pdf json_loads [Inr reply_long_int, Inr reply_text_only] =
     Inl (ValueError, [ModelCall])
   \<and> extract_data_from_docx json_loads docx_two_images =
       Inr ([NL] @ ''--- Text from Embedded Image 2 ---'' @ [NL] @ ''Hello'', [],
            [ModelCall, ImageWarning 1 ValueError, ModelCall])"
proof -
  have p: "pdf_page json_loads pdf_init (0, Inr reply_long_int) = Inl (ValueError, [ModelCall])"
    using pdf_page_other_error [OF long_int_nonempty parse_long_int, of pdf_init 0]
    by (simp add: pdf_init_def)
  have a: "extract_data_from_pdf json_loads [Inr reply_long_int, Inr reply_text_only] =
     Inl (ValueError, [ModelCall])"
    by (simp add: extract_data_from_pdf_def p)
  have i: "image_parts docx_two_images =
             Inr [Bitmap (Inr reply_long_int), Bitmap (Inr reply_text_only)]"
    by (simp add: docx_two_images_def image_parts_def)
  have d2: "docx_image json_loads st (Suc 0, Bitmap (Inr reply_text_only)) =
              docx_add (Suc 0) (PStr ''Hello'', PList []) (st\<lparr>docx_log := docx_log st @ [ModelCall]\<rparr>)" for st
    by (simp add: docx_image_def get_gemini_response_def text_only_nonempty parse_text_only)
  have b: "extract_data_from_docx json_loads docx_two_images =
       Inr ([NL] @ ''--- Text from Embedded Image 2 ---'' @ [NL] @ ''Hello'', [],
            [ModelCall, ImageWarning 1 ValueError, ModelCall])"
    by (simp add: extract_data_from_docx_def i docx_loop_def
          docx_image_error [OF long_int_nonempty parse_long_int] d2 docx_add_def
          image_section_def str_nat_small)
       (simp add: docx_init_def docx_two_images_def)
  show ?thesis using a b by simp
qed

section \<open>The file name of a CSV download\<close>

lemma filter_dropWhile_not: "filter P (dropWhile (\<lambda>x. \<not> P x) xs) = filter P xs"
  by (induction xs) auto

lemma re_sub_delete_filter: "re_sub_delete keep s = filter keep s"
  by (induction keep s rule: re_sub_delete.induct) (auto simp: filter_dropWhile_not)

text \<open>The class and the letters, character by character.\<close>

lemma filename_char_class:
  "filename_char c = (c \<in> set ''abcdefghijklmnopqrstuvwxyz0123456789_'')"
proof (cases c)
  case (Char b0 b1 b2 b3 b4 b5 b6 b7)
  show ?thesis
    unfolding Char filename_char_def Let_def
    by (cases b0; cases b1; cases b2; cases b3; cases b4; cases b5; cases b6; cases b7; simp)
qed

lemma lower_char_letters:
  "lower_char c =
     (case map_of (zip ''ABCDEFGHIJKLMNOPQRSTUVWXYZ'' ''abcdefghijklmnopqrstuvwxyz'') c of
        None \<Rightarrow> c | Some l \<Rightarrow> l)"
proof (cases c)
  case (Char b0 b1 b2 b3 b4 b5 b6 b7)
  show ?thesis
    unfolding Char lower_char_def Let_def
    by (cases b0; cases b1; cases b2; cases b3; cases b4; cases b5; cases b6; cases b7; simp)
qed

lemma safe_filename_ascii:
  assumes "is_ascii s"
  shows "safe_filename s =
           filter (\<lambda>c. c \<in> set ''abcdefghijklmnopqrstuvwxyz0123456789_'')
             (map (\<lambda>c. if c = CHR '' '' then CHR ''_'' else c)
                (map (\<lambda>c. case map_of (zip ''ABCDEFGHIJKLMNOPQRSTUVWXYZ''
                                           ''abcdefghijklmnopqrstuvwxyz'') c of
                             None \<Rightarrow> c | Some l \<Rightarrow> l) s))"
proof -
  have f: "filename_char = (\<lambda>c. c \<in> set ''abcdefghijklmnopqrstuvwxyz0123456789_'')"
    by (rule ext) (rule filename_char_class)
  have l: "lower_char =
             (\<lambda>c. case map_of (zip ''ABCDEFGHIJKLMNOPQRSTUVWXYZ'' ''abcdefghijklmnopqrstuvwxyz'') c of
                     None \<Rightarrow> c | Some l \<Rightarrow> l)"
    by (rule ext) (rule lower_char_letters)
  have "safe_filename s =
          filter filename_char (map (\<lambda>c. if c = CHR '' '' then CHR ''_'' else c) (map lower_char s))"
    using assms by (simp add: safe_filename_def re_sub_delete_filter py_replace_def py_lower_def)
  then show ?thesis unfolding f l .
qed

lemma csv_button_file_name:
  "csv_entry pd (i, t) = CsvButton d \<Longrightarrow> file_name d = safe_filename (title t) @ ''.csv''"
  by (auto simp: csv_entry_def csv_try_def csv_button_def Let_def
        split: sum.splits option.splits if_splits)

text \<open>Every title that an extraction path builds is a string of ASCII characters.\<close>

lemma is_ascii_append: "is_ascii (a @ b) = (is_ascii a \<and> is_ascii b)"
  by (simp add: is_ascii_def)

lemma digit_char_ascii: "n < 10 \<Longrightarrow> is_ascii [digit_char n]"
proof -
  assume "n < 10"
  then have "n \<in> {0, 1, 2, 3, 4, 5, 6, 7, 8, 9}" by auto
  then show ?thesis
    by (auto simp: digit_char_def is_ascii_def)
qed

lemma str_nat_ascii: "is_ascii (str_nat n)"
proof (induction n rule: str_nat.induct)
  case (1 n)
  show ?case
  proof (cases "n < 10")
    case True
    then show ?thesis by (subst str_nat.simps) (simp add: digit_char_ascii)
  next
    case False
    then have "is_ascii (str_nat (n div 10))" using 1 by simp
    moreover have "is_ascii [digit_char (n mod 10)]" by (rule digit_char_ascii) simp
    ultimately show ?thesis using False
      by (subst str_nat.simps) (simp add: is_ascii_append)
  qed
qed

lemma native_title_ascii: "is_ascii (title (native_table_entry u))"
  using str_nat_ascii [of "fst u + 1"]
  by (simp add: native_table_entry_def is_ascii_append) (simp add: is_ascii_def)

lemma image_title_ascii: "is_ascii (title (image_table_entry i v))"
  using str_nat_ascii [of "i + 1"]
  by (simp add: image_table_entry_def is_ascii_append) (simp add: is_ascii_def)

lemma page_title_ascii: "is_ascii (title (page_table_entry i v))"
  using str_nat_ascii [of "i + 1"]
  by (simp add: page_table_entry_def is_ascii_append) (simp add: is_ascii_def)

lemma pdf_page_ascii:
  assumes "pdf_page loads st u = Inr st'"
    and "\<forall>t \<in> set (aggregated_tables st). is_ascii (title t)"
  shows "\<forall>t \<in> set (aggregated_tables st'). is_ascii (title t)"
  using assms page_title_ascii
  by (cases u)
     (auto simp: pdf_page_def get_gemini_response_def pdf_add_def Let_def
           split: sum.splits option.splits if_splits exn.splits)

lemma pdf_loop_ascii:
  assumes "pdf_loop loads st us = Inr st'"
    and "\<forall>t \<in> set (aggregated_tables st). is_ascii (title t)"
  shows "\<forall>t \<in> set (aggregated_tables st'). is_ascii (title t)"
  using assms
proof (induction us arbitrary: st)
  case Nil
  then show ?case by simp
next
  case (Cons u us)
  from Cons.prems(1) obtain st1 where s: "pdf_page loads st u = Inr st1"
    and l: "pdf_loop loads st1 us = Inr st'"
    by (auto split: sum.splits)
  from pdf_page_ascii [OF s Cons.prems(2)] Cons.IH [OF l] show ?case by blast
qed

lemma extracted_titles_ascii:
  assumes "main_extract loads up = Inr (res, ev)" and "u \<in> set (table_result res)"
  shows "is_ascii (title u)"
proof -
  consider (img) "file_extension up \<in> set [''.jpg'', ''.jpeg'', ''.png'']"
    | (pdf) "file_extension up \<notin> set [''.jpg'', ''.jpeg'', ''.png'']" "file_extension up = ''.pdf''"
    | (docx) "file_extension up \<notin> set [''.jpg'', ''.jpeg'', ''.png'']" "file_extension up \<noteq> ''.pdf''"
        "file_extension up = ''.docx''"
    | (other) "file_extension up \<notin> set [''.jpg'', ''.jpeg'', ''.png'']" "file_extension up \<noteq> ''.pdf''"
        "file_extension up \<noteq> ''.docx''"
    by blast
  then show ?thesis
  proof cases
    case img
    then have "extract_image loads (image_reply up) = Inr (res, ev)"
      using assms by (simp add: main_extract_def)
    then have "title u = ''Table from Image''"
      using assms(2)
      by (cases "image_reply up")
         (auto simp: extract_image_def get_gemini_response_def extraction_init_def
               split: option.splits sum.splits if_splits exn.splits)
    then show ?thesis by (simp add: is_ascii_def)
  next
    case pdf
    then obtain st where e: "extract_data_from_pdf loads (pdf_pages up) = Inr st"
      and r: "table_result res = aggregated_tables st"
      using assms by (auto simp: main_extract_def split: sum.splits)
    from e have "\<forall>t \<in> set (aggregated_tables st). is_ascii (title t)"
      unfolding extract_data_from_pdf_def
      by (rule pdf_loop_ascii) (simp add: pdf_init_def)
    then show ?thesis using r assms(2) by simp
  next
    case docx
    then obtain out lg where
      "extract_data_from_docx loads (docx_doc up) = Inr (out, table_result res, lg)"
      using assms by (auto simp: main_extract_def split: sum.splits prod.splits)
    from docx_tables_returned [OF this] obtain parts where
      r: "table_result res =
            map native_table_entry (enumerate 0 (doc_tables (docx_doc up))) @
            map (\<lambda>u. image_table_entry (fst u) (part_table loads (snd u)))
              (table_parts loads (enumerate 0 parts))"
      by blast
    show ?thesis
      using assms(2) unfolding r
      by (auto simp: native_title_ascii image_title_ascii)
  next
    case other
    then show ?thesis using assms by (auto simp: main_extract_def extraction_init_def)
  qed
qed

lemmas pandas_eval = pandas_double_def frame_of_def frame_of_columns_def grid_width_def pad_row_def
  header_frame_def

lemmas filename_eval = safe_filename_def re_sub_delete_filter py_replace_def py_lower_def
  lower_char_def filename_char_def is_ascii_def

lemmas printing_eval = frame_to_string_def frame_to_csv_def plain_frame_def is_ascii_def

lemma csv_scenario:
  "csv_entry pandas_double (0, table_report)
   = CsvButton
       \<lparr>label = ''Download '' @ [CHR 0x27] @ ''Q3 Report (final) - v2.1!'' @ [CHR 0x27],
        file_data = frame_csv \<lparr>column_labels = [PStr ''A'', PStr ''B''],
                               cells = [[PStr ''1'', PStr ''2'']]\<rparr>,
        file_name = ''q3_report_final__v21.csv'',
        widget_key = ''csv_dl_0''\<rparr>"
proof -
  have n: "safe_filename ''Q3 Report (final) - v2.1!'' = ''q3_report_final__v21''"
    by (simp add: filename_eval)
  have f: "header_frame pandas_double grid_ab =
             Inr \<lparr>column_labels = [PStr ''A'', PStr ''B''], cells = [[PStr ''1'', PStr ''2'']]\<rparr>"
    by (simp add: pandas_eval grid_ab_def)
  have c: "to_csv pandas_double \<lparr>column_labels = [PStr ''A'', PStr ''B''],
                                  cells = [[PStr ''1'', PStr ''2'']]\<rparr> =
             Inr (frame_csv \<lparr>column_labels = [PStr ''A'', PStr ''B''],
                             cells = [[PStr ''1'', PStr ''2'']]\<rparr>)"
    by (simp add: pandas_double_def printing_eval)
  have b: "st_download_button pandas_double d = None" for d
    by (simp add: pandas_double_def)
  have g: "truthy grid_ab" "py_len grid_ab = Inr 2"
    by (simp_all add: grid_ab_def)
  show ?thesis
    by (simp add: csv_entry_def csv_try_def csv_button_def table_report_def g f c b n
          str_nat_small)
qed

text \<open>
  Claim C9. Whenever the CSV loop offers a download for a table whose title is a string
  of ASCII characters, the name of the file is the title with each of the letters
  \<^verbatim>\<open>A\<close> to \<^verbatim>\<open>Z\<close> replaced by its small letter, then every space replaced by an
  underscore, then every character other than the small letters \<^verbatim>\<open>a\<close> to \<^verbatim>\<open>z\<close>, the
  digits and the underscore removed, followed by the extension \<^verbatim>\<open>.csv\<close>. The
  regular-expression substitution of the source deletes maximal runs; the theorem shows
  that this keeps exactly the characters of the class, in their order. Every table that
  the program exports has such a title: the titles that the three extraction paths build
  consist of ASCII characters, which is the second part of the theorem. (On a title with
  other characters \<^verbatim>\<open>str.lower\<close> does more than the claim's lower-casing of letters; the
  program builds no such title.)
\<close>

theorem csv_filename_derivation:
  "((\<forall>c \<in> set (title t). (of_char c :: nat) < 128) \<longrightarrow> csv_entry pd (i, t) = CsvButton d \<longrightarrow>
      file_name d =
        filter (\<lambda>c. c \<in> set ''abcdefghijklmnopqrstuvwxyz0123456789_'')
          (map (\<lambda>c. if c = CHR '' '' then CHR ''_'' else c)
             (map (\<lambda>c. case map_of (zip ''ABCDEFGHIJKLMNOPQRSTUVWXYZ''
                                        ''abcdefghijklmnopqrstuvwxyz'') c of
                          None \<Rightarrow> c | Some l \<Rightarrow> l) (title t)))
        @ ''.csv'')
   \<and> (main_extract loads up = Inr (res, ev) \<longrightarrow> u \<in> set (table_result res) \<longrightarrow>
        (\<forall>c \<in> set (title u). (of_char c :: nat) < 128))"
proof -
  have a: "file_name d =
        filter (\<lambda>c. c \<in> set ''abcdefghijklmnopqrstuvwxyz0123456789_'')
          (map (\<lambda>c. if c = CHR '' '' then CHR ''_'' else c)
             (map (\<lambda>c. case map_of (zip ''ABCDEFGHIJKLMNOPQRSTUVWXYZ''
                                        ''abcdefghijklmnopqrstuvwxyz'') c of
                          None \<Rightarrow> c | Some l \<Rightarrow> l) (title t)))
        @ ''.csv''"
    if "\<forall>c \<in> set (title t). (of_char c :: nat) < 128" and "csv_entry pd (i, t) = CsvButton d"
  proof -
    from that(1) have "is_ascii (title t)" by (simp add: is_ascii_def list_all_iff)
    from csv_button_file_name [OF that(2)] show ?thesis
      unfolding safe_filename_ascii [OF \<open>is_ascii (title t)\<close>] .
  qed
  have b: "\<forall>c \<in> set (title u). (of_char c :: nat) < 128"
    if "main_extract loads up = Inr (res, ev)" and "u \<in> set (table_result res)"
    using extracted_titles_ascii [OF that] by (simp add: is_ascii_def list_all_iff)
  show ?thesis
  proof (intro conjI impI)
    assume "\<forall>c \<in> set (title t). (of_char c :: nat) < 128" and "csv_entry pd (i, t) = CsvButton d"
    then show "file_name d =
        filter (\<lambda>c. c \<in> set ''abcdefghijklmnopqrstuvwxyz0123456789_'')
          (map (\<lambda>c. if c = CHR '' '' then CHR ''_'' else c)
             (map (\<lambda>c. case map_of (zip ''ABCDEFGHIJKLMNOPQRSTUVWXYZ''
                                        ''abcdefghijklmnopqrstuvwxyz'') c of
                          None \<Rightarrow> c | Some l \<Rightarrow> l) (title t)))
        @ ''.csv''"
      by (rule a)
  next
    assume "main_extract loads up = Inr (res, ev)" and "u \<in> set (table_result res)"
    then show "\<forall>c \<in> set (title u). (of_char c :: nat) < 128"
      by (rule b)
  qed
qed

theorem csv_filename_derivation_witness:
  "csv_entry pandas_double (0, table_report)
   = CsvButton
       \<lparr>label = ''Download '' @ [CHR 0x27] @ ''Q3 Report (final) - v2.1!'' @ [CHR 0x27],
        file_data = frame_csv \<lparr>column_labels = [PStr ''A'', PStr ''B''],
                               cells = [[PStr ''1'', PStr ''2'']]\<rparr>,
        file_name = ''q3_report_final__v21.csv'',
        widget_key = ''csv_dl_0''\<rparr>
   \<and> ''q3_report_final__v21.csv'' =
        filter (\<lambda>c. c \<in> set ''abcdefghijklmnopqrstuvwxyz0123456789_'')
          (map (\<lambda>c. if c = CHR '' '' then CHR ''_'' else c)
             (map (\<lambda>c. case map_of (zip ''ABCDEFGHIJKLMNOPQRSTUVWXYZ''
                                        ''abcdefghijklmnopqrstuvwxyz'') c of
                          None \<Rightarrow> c | Some l \<Rightarrow> l) ''Q3 Report (final) - v2.1!''))
        @ ''.csv''
   \<and> main_extract json_loads docx_upload =
       Inr (\<lparr>text_result = PStr ''Intro'',
             table_result =
               [\<lparr>title = ''Native Table 1'', data = PList []\<rparr>,
                \<lparr>title = ''Table from Embedded Image 1'', data = grid_ab\<rparr>]\<rparr>,
            [ModelCall])
   \<and> set ''Table from Embedded Image 1'' \<subseteq> {c. (of_char c :: nat) < 128}"
proof -
  have h: "\<forall>c \<in> set (title table_report). (of_char c :: nat) < 128"
    by (simp add: table_report_def)
  have t: "title table_report = ''Q3 Report (final) - v2.1!''"
    by (simp add: table_report_def)
  have m: "\<lparr>title = ''Table from Embedded Image 1'', data = grid_ab\<rparr> \<in>
             set (table_result
                    \<lparr>text_result = PStr ''Intro'',
                     table_result =
                       [\<lparr>title = ''Native Table 1'', data = PList []\<rparr>,
                        \<lparr>title = ''Table from Embedded Image 1'', data = grid_ab\<rparr>]\<rparr>)"
    by simp
  note w = csv_filename_derivation
    [where t = table_report and pd = pandas_double and i = 0 and loads = json_loads
       and up = docx_upload
       and u = "\<lparr>title = ''Table from Embedded Image 1'', data = grid_ab\<rparr>"]
  from w [THEN conjunct1, THEN mp, OF h, THEN mp, OF csv_scenario]
  have "file_name
          \<lparr>label = ''Download '' @ [CHR 0x27] @ ''Q3 Report (final) - v2.1!'' @ [CHR 0x27],
           file_data = frame_csv \<lparr>column_labels = [PStr ''A'', PStr ''B''],
                                  cells = [[PStr ''1'', PStr ''2'']]\<rparr>,
           file_name = ''q3_report_final__v21.csv'',
           widget_key = ''csv_dl_0''\<rparr> =
        filter (\<lambda>c. c \<in> set ''abcdefghijklmnopqrstuvwxyz0123456789_'')
          (map (\<lambda>c. if c = CHR '' '' then CHR ''_'' else c)
             (map (\<lambda>c. case map_of (zip ''ABCDEFGHIJKLMNOPQRSTUVWXYZ''
                                        ''abcdefghijklmnopqrstuvwxyz'') c of
                          None \<Rightarrow> c | Some l \<Rightarrow> l) ''Q3 Report (final) - v2.1!''))
        @ ''.csv''"
    unfolding t .
  then have a: "''q3_report_final__v21.csv'' =
        filter (\<lambda>c. c \<in> set ''abcdefghijklmnopqrstuvwxyz0123456789_'')
          (map (\<lambda>c. if c = CHR '' '' then CHR ''_'' else c)
             (map (\<lambda>c. case map_of (zip ''ABCDEFGHIJKLMNOPQRSTUVWXYZ''
                                        ''abcdefghijklmnopqrstuvwxyz'') c of
                          None \<Rightarrow> c | Some l \<Rightarrow> l) ''Q3 Report (final) - v2.1!''))
        @ ''.csv''"
    by (simp only: download.select_convs)
  from w [THEN conjunct2, THEN mp, OF docx_upload_result, THEN mp, OF m]
  have "\<forall>c \<in> set ''Table from Embedded Image 1''. (of_char c :: nat) < 128"
    by (simp only: table_info.select_convs)
  then have b: "set ''Table from Embedded Image 1'' \<subseteq> {c. (of_char c :: nat) < 128}"
    by (simp only: subset_iff mem_Collect_eq Ball_def)
  show ?thesis
    by (intro conjI) (rule csv_scenario a b docx_upload_result)+
qed

section \<open>The downloads\<close>

lemma txt_tables_prefix:
  "txt_tables pd acc ts = Inr out \<Longrightarrow> \<exists>post. out = acc @ post"
proof (induction ts arbitrary: acc)
  case Nil
  then show ?case by simp
next
  case (Cons t ts)
  from Cons.prems obtain df grid where d: "DataFrame pd (data t) = Inr df"
    and g: "to_string pd df = Inr grid"
    and r: "txt_tables pd (acc @ txt_table_heading t @ grid) ts = Inr out"
    by (auto split: sum.splits)
  from Cons.IH [OF r] obtain post where "out = (acc @ txt_table_heading t @ grid) @ post"
    by blast
  then show ?case by simp
qed

lemma txt_tables_section:
  assumes "txt_tables pd acc ts = Inr out" and "t \<in> set ts"
  shows "\<exists>df grid pre post. DataFrame pd (data t) = Inr df \<and> to_string pd df = Inr grid
           \<and> out = pre @ txt_table_heading t @ grid @ post"
  using assms
proof (induction ts arbitrary: acc)
  case Nil
  then show ?case by simp
next
  case (Cons u ts)
  from Cons.prems(1) obtain df grid where d: "DataFrame pd (data u) = Inr df"
    and g: "to_string pd df = Inr grid"
    and r: "txt_tables pd (acc @ txt_table_heading u @ grid) ts = Inr out"
    by (auto split: sum.splits)
  show ?case
  proof (cases "t = u")
    case True
    from txt_tables_prefix [OF r] obtain post where
      "out = (acc @ txt_table_heading u @ grid) @ post" by blast
    then have "out = acc @ txt_table_heading t @ grid @ post"
      using True by simp
    then show ?thesis using d g True by blast
  next
    case False
    then have "t \<in> set ts" using Cons.prems(2) by simp
    from Cons.IH [OF r this] show ?thesis .
  qed
qed

lemma txt_tables_raises:
  assumes "t \<in> set ts" and "DataFrame pd (data t) = Inl e"
  shows "\<exists>e'. txt_tables pd acc ts = Inl e'"
proof (cases "txt_tables pd acc ts")
  case (Inl e')
  then show ?thesis by blast
next
  case (Inr out)
  from txt_tables_section [OF Inr assms(1)] assms(2) show ?thesis by auto
qed














section \<open>A table that is not a grid\<close>

lemma export_txt_raises:
  assumes "t \<in> set (table_result res)" and "DataFrame pd (data t) = Inl e"
  shows "\<exists>e'. export_txt pd res = Inl e' \<and> downloads pd res = Inl e'"
proof -
  from txt_tables_raises [OF assms, of "txt_header (text_result res)"]
  obtain e' where "export_txt pd res = Inl e'" by (auto simp: export_txt_def)
  then show ?thesis by (simp add: downloads_def)
qed

lemma loads_no_table:
  "json_loads reply_no_table =
     Inr (PDict [(''text'', PStr ''Invoice 42''), (''table'', PStr ''No table found'')])"
  by (simp add: reply_no_table_def json_eval scan_numeral)

lemma extract_no_table:
  "main_extract json_loads png_upload_no_table = Inr (result_string, [ModelCall])"
proof -
  have s: "json_substring reply_no_table = Some reply_no_table"
    unfolding reply_no_table_def
    using json_substring_delimited [of "[]" "[]" "''\"text\":\"Invoice 42\",\"table\":\"No table found\"''"]
    by simp
  have n: "reply_no_table \<noteq> []" by (simp add: reply_no_table_def)
  show ?thesis
    by (simp add: main_extract_def png_upload_no_table_def extract_image_def get_gemini_response_def
          s n loads_no_table result_string_def table_string_def)
qed


text \<open>
  Claim C8 does not hold for the text download. For the upload below the model's
  \<^verbatim>\<open>table\<close> value is the string \<^verbatim>\<open>No table found\<close>. The value is truthy, so the
  dispatcher stores it as the data of the table \<^verbatim>\<open>Table from Image\<close>. The display catches
  the failure of the frame constructor and shows the raw value under a warning. The text
  download is built outside any \<^verbatim>\<open>try\<close>: the constructor's \<^verbatim>\<open>ValueError\<close> leaves the
  download section, and neither the text download nor the CSV loop is reached.
\<close>

theorem text_export_raises_on_string_table:
  "main_extract json_loads png_upload_no_table = Inr (result_string, [ModelCall])
   \<and> render_table pandas_double table_string =
       [Markdown ''Table from Image'', FormatWarning, Json (PStr ''No table found'')]
   \<and> export_txt pandas_double result_string = Inl ValueError
   \<and> downloads pandas_double result_string = Inl ValueError"
proof -
  have r: "render_table pandas_double table_string =
       [Markdown ''Table from Image'', FormatWarning, Json (PStr ''No table found'')]"
    by (simp add: render_table_def render_try_def table_string_def utf8_cont_def pandas_eval)
  have x: "export_txt pandas_double result_string = Inl ValueError"
    by (simp add: export_txt_def result_string_def table_string_def pandas_eval)
  then have d: "downloads pandas_double result_string = Inl ValueError"
    by (simp add: downloads_def)
  show ?thesis using extract_no_table r x d by simp
qed

end
